theory Spec2Isabelle
  imports Complex_Main "HOL-Library.Word" "HOL-Library.Sublist" "HOL-Library.Log_Nat"
    "HOL-Library.AList"
begin

section \<open>JavaScript strings\<close>

text \<open>
  A JavaScript string is a sequence of UTF-16 code units. The parser of
  \<^verbatim>\<open>council.ts\<close> works on code units throughout (no regular expression there has the
  \<^verbatim>\<open>u\<close> flag), so a text is a list of 16-bit words. \<open>js\<close> turns an ASCII literal of
  the source into such a list.
\<close>

type_synonym cu = "16 word"
type_synonym jsstring = "cu list"

definition js :: "string \<Rightarrow> jsstring" where
  "js s = map of_char s"

text \<open>The character classes of the source's regular expressions: \<^verbatim>\<open>\d\<close>,
  \<^verbatim>\<open>[A-Z]\<close>, \<^verbatim>\<open>\s\<close> (ECMAScript WhiteSpace and LineTerminator, which is
  also what \<^verbatim>\<open>trim\<close> removes) and the word characters that decide \<^verbatim>\<open>\b\<close>.\<close>

definition is_digit :: "cu \<Rightarrow> bool" where
  "is_digit c \<longleftrightarrow> 0x30 \<le> c \<and> c \<le> 0x39"

definition is_upper :: "cu \<Rightarrow> bool" where
  "is_upper c \<longleftrightarrow> 0x41 \<le> c \<and> c \<le> 0x5A"

definition is_space :: "cu \<Rightarrow> bool" where
  "is_space c \<longleftrightarrow>
     c = 0x09 \<or> c = 0x0A \<or> c = 0x0B \<or> c = 0x0C \<or> c = 0x0D \<or> c = 0x20 \<or> c = 0xA0 \<or>
     c = 0x1680 \<or> (0x2000 \<le> c \<and> c \<le> 0x200A) \<or> c = 0x2028 \<or> c = 0x2029 \<or>
     c = 0x202F \<or> c = 0x205F \<or> c = 0x3000 \<or> c = 0xFEFF"

definition is_word :: "cu \<Rightarrow> bool" where
  "is_word c \<longleftrightarrow>
     (0x41 \<le> c \<and> c \<le> 0x5A) \<or> (0x61 \<le> c \<and> c \<le> 0x7A) \<or> (0x30 \<le> c \<and> c \<le> 0x39) \<or> c = 0x5F"

definition DOT :: cu where "DOT = 0x2E"
definition COMMA :: cu where "COMMA = 0x2C"
definition GT :: cu where "GT = 0x3E"

text \<open>\<^verbatim>\<open>s.indexOf(pat)\<close>: the index of the first occurrence, or \<open>-1\<close>.\<close>

fun indexOf_from :: "jsstring \<Rightarrow> jsstring \<Rightarrow> nat \<Rightarrow> int" where
  "indexOf_from pat [] i = (if pat = [] then int i else - 1)"
| "indexOf_from pat (c # cs) i =
     (if prefix pat (c # cs) then int i else indexOf_from pat cs (Suc i))"

definition indexOf :: "jsstring \<Rightarrow> jsstring \<Rightarrow> int" where
  "indexOf s pat = indexOf_from pat s 0"

text \<open>\<^verbatim>\<open>s.slice(i)\<close>: the suffix from index \<open>i\<close>; a negative \<open>i\<close> counts from the end.\<close>

definition slice :: "jsstring \<Rightarrow> int \<Rightarrow> jsstring" where
  "slice s i = (if i < 0 then drop (nat (int (length s) + i)) s else drop (nat i) s)"

text \<open>\<^verbatim>\<open>s.trim()\<close>.\<close>

definition trim :: "jsstring \<Rightarrow> jsstring" where
  "trim s = rev (dropWhile is_space (rev (dropWhile is_space s)))"

text \<open>\<^verbatim>\<open>s.split(c)\<close> for a separator of one code unit: never empty, the empty string
  splits into one empty piece.\<close>

fun split_on :: "cu \<Rightarrow> jsstring \<Rightarrow> jsstring list" where
  "split_on c [] = [[]]"
| "split_on c (x # xs) =
     (if x = c then [] # split_on c xs
      else (case split_on c xs of [] \<Rightarrow> [[x]] | t # ts \<Rightarrow> (x # t) # ts))"

text \<open>\<^verbatim>\<open>[...new Set(xs)]\<close>: a \<^verbatim>\<open>Set\<close> keeps its elements in insertion order and ignores
  a value it already holds.\<close>

fun set_add_all :: "'a list \<Rightarrow> 'a list \<Rightarrow> 'a list" where
  "set_add_all acc [] = acc"
| "set_add_all acc (x # xs) = set_add_all (if x \<in> set acc then acc else acc @ [x]) xs"

definition new_Set :: "'a list \<Rightarrow> 'a list" where
  "new_Set xs = set_add_all [] xs"

section \<open>Regular expressions with backtracking\<close>

text \<open>
  The fragment of ECMAScript regular expressions that the source uses: single code
  units, classes, sequence, alternation, the greedy star, \<^verbatim>\<open>^\<close>, \<^verbatim>\<open>$\<close> (no
  \<^verbatim>\<open>m\<close> flag: only the two ends of the input) and \<^verbatim>\<open>\b\<close>. Capture groups are
  dropped: the source only reads whole matches.

  A position is the code unit before it (if any) and the rest of the input. \<open>ms r q\<close>
  lists, in the order in which the backtracking matcher tries them, the positions at
  which a match of \<open>r\<close> started at \<open>q\<close> can end; the match that \<^verbatim>\<open>exec\<close> reports is
  the first of the list. The star first tries one more iteration and then none, and it
  refuses an iteration that consumed nothing, as the RepeatMatcher of the standard does.
\<close>

datatype re = Lit cu | Cls "cu \<Rightarrow> bool" | Eps | Seq re re | Alt re re | Star re | Bol | Eol | WordB

type_synonym pos = "cu option \<times> jsstring"

function (sequential) ms :: "re \<Rightarrow> pos \<Rightarrow> pos list" where
  "ms (Lit c) (p, s) =
     (case s of [] \<Rightarrow> [] | x # xs \<Rightarrow> if x = c then [(Some x, xs)] else [])"
| "ms (Cls P) (p, s) =
     (case s of [] \<Rightarrow> [] | x # xs \<Rightarrow> if P x then [(Some x, xs)] else [])"
| "ms Eps q = [q]"
| "ms (Seq a b) q = concat (map (ms b) (ms a q))"
| "ms (Alt a b) q = ms a q @ ms b q"
| "ms (Star a) q =
     concat (map (\<lambda>q'. if length (snd q') < length (snd q) then ms (Star a) q' else [])
                 (ms a q)) @ [q]"
| "ms Bol (p, s) = (if p = None then [(p, s)] else [])"
| "ms Eol (p, s) = (if s = [] then [(p, s)] else [])"
| "ms WordB (p, s) =
     (if (case p of None \<Rightarrow> False | Some c \<Rightarrow> is_word c)
         \<noteq> (case s of [] \<Rightarrow> False | x # _ \<Rightarrow> is_word x)
      then [(p, s)] else [])"
  by pat_completeness auto
termination
  by (relation "measures [\<lambda>(r, q). size r, \<lambda>(r, q). length (snd q)]") auto

definition Plus :: "re \<Rightarrow> re" where
  "Plus r = Seq r (Star r)"

definition lits :: "jsstring \<Rightarrow> re" where
  "lits s = foldr (\<lambda>c r. Seq (Lit c) r) s Eps"

text \<open>The length of the match of \<open>r\<close> that starts at a position, if there is one.\<close>

definition exec_at :: "re \<Rightarrow> pos \<Rightarrow> nat option" where
  "exec_at r q =
     (case ms r q of [] \<Rightarrow> None | q' # _ \<Rightarrow> Some (length (snd q) - length (snd q')))"

text \<open>The leftmost match from a position on: how far right it starts, and its length.\<close>

fun search :: "re \<Rightarrow> cu option \<Rightarrow> jsstring \<Rightarrow> (nat \<times> nat) option" where
  "search r p [] = (case exec_at r (p, []) of None \<Rightarrow> None | Some n \<Rightarrow> Some (0, n))"
| "search r p (x # xs) =
     (case exec_at r (p, x # xs) of
        Some n \<Rightarrow> Some (0, n)
      | None \<Rightarrow> (case search r (Some x) xs of None \<Rightarrow> None | Some (i, n) \<Rightarrow> Some (Suc i, n)))"

text \<open>\<^verbatim>\<open>re.test(s)\<close> and \<^verbatim>\<open>s.replace(re, '')\<close> for a regular expression without the
  \<^verbatim>\<open>g\<close> flag: the leftmost match decides, and is cut out.\<close>

definition test :: "re \<Rightarrow> jsstring \<Rightarrow> bool" where
  "test r s = (search r None s \<noteq> None)"

definition replace_empty :: "re \<Rightarrow> jsstring \<Rightarrow> jsstring" where
  "replace_empty r s =
     (case search r None s of None \<Rightarrow> s | Some (i, n) \<Rightarrow> take i s @ drop (i + n) s)"

text \<open>
  \<^verbatim>\<open>s.match(re)\<close> for a regular expression with the \<^verbatim>\<open>g\<close> flag: all matches from
  left to right, each search starting where the previous match ended (one code unit
  further after an empty match); \<^verbatim>\<open>null\<close> when there is none.
\<close>

function match_all :: "re \<Rightarrow> cu option \<Rightarrow> jsstring \<Rightarrow> jsstring list" where
  "match_all r p s =
     (case exec_at r (p, s) of
        Some n \<Rightarrow>
          take n s #
          (if s = [] then []
           else match_all r (Some (last (take (max 1 n) s))) (drop (max 1 n) s))
      | None \<Rightarrow> (case s of [] \<Rightarrow> [] | x # xs \<Rightarrow> match_all r (Some x) xs))"
  by pat_completeness auto
termination
  by (relation "measure (\<lambda>(r, p, s). length s)") auto

definition str_match :: "jsstring \<Rightarrow> re \<Rightarrow> jsstring list option" where
  "str_match s r = (case match_all r None s of [] \<Rightarrow> None | m # ms' \<Rightarrow> Some (m # ms'))"

section \<open>The ranking parser\<close>

text \<open>The regular expressions of \<^verbatim>\<open>parseRanking\<close>, in the order of the source.\<close>

definition MARKER :: jsstring where
  "MARKER = js ''FINAL RANKING:''"

definition numbered_re :: re where
  \<comment> \<open>\<^verbatim>\<open>/\d+\.\s*Response [A-Z]/g\<close>\<close>
  "numbered_re =
     Seq (Plus (Cls is_digit)) (Seq (Lit DOT) (Seq (Star (Cls is_space))
       (Seq (lits (js ''Response '')) (Cls is_upper))))"

definition ordinal_re :: re where
  \<comment> \<open>\<^verbatim>\<open>/^\d+\.\s*/\<close>\<close>
  "ordinal_re = Seq Bol (Seq (Plus (Cls is_digit)) (Seq (Lit DOT) (Star (Cls is_space))))"

definition bare_re :: re where
  \<comment> \<open>\<^verbatim>\<open>/\d+\.\s*[A-Z](?:\s|$|,|\.)/g\<close>\<close>
  "bare_re =
     Seq (Plus (Cls is_digit)) (Seq (Lit DOT) (Seq (Star (Cls is_space))
       (Seq (Cls is_upper) (Alt (Cls is_space) (Alt Eol (Alt (Lit COMMA) (Lit DOT)))))))"

definition punct_end_re :: re where
  \<comment> \<open>\<^verbatim>\<open>/[,.]$/\<close>\<close>
  "punct_end_re = Seq (Cls (\<lambda>c. c = COMMA \<or> c = DOT)) Eol"

definition mention_re :: re where
  \<comment> \<open>\<^verbatim>\<open>/Response [A-Z]/g\<close>\<close>
  "mention_re = Seq (lits (js ''Response '')) (Cls is_upper)"

definition gt_re :: re where
  \<comment> \<open>\<^verbatim>\<open>/\b([A-Z])\s*>\s*([A-Z])(?:\s*>\s*([A-Z]))*/g\<close>\<close>
  "gt_re =
     Seq WordB (Seq (Cls is_upper) (Seq (Star (Cls is_space)) (Seq (Lit GT)
       (Seq (Star (Cls is_space)) (Seq (Cls is_upper)
         (Star (Seq (Star (Cls is_space)) (Seq (Lit GT)
            (Seq (Star (Cls is_space)) (Cls is_upper))))))))))"

definition single_upper_re :: re where
  \<comment> \<open>\<^verbatim>\<open>/^[A-Z]$/\<close>\<close>
  "single_upper_re = Seq Bol (Seq (Cls is_upper) Eol)"

text \<open>The block guarded by \<^verbatim>\<open>finalRankingIdx !== -1\<close>: \<open>Some\<close> where it returns, \<open>None\<close>
  where control falls through to the strategies below it. A guard
  \<^verbatim>\<open>matches && matches.length > 0\<close> is a \<open>case\<close> on the result of \<^verbatim>\<open>match\<close> followed by
  the test of the length.\<close>

definition bare_labels :: "jsstring \<Rightarrow> jsstring list option" where
  "bare_labels section =
     (case str_match section bare_re of
        None \<Rightarrow> None
      | Some bareMatches \<Rightarrow>
          if 0 < length bareMatches
          then Some (map (\<lambda>m. js ''Response '' @
                        replace_empty punct_end_re (trim (replace_empty ordinal_re m)))
                      bareMatches)
          else None)"

definition headered :: "jsstring \<Rightarrow> jsstring list option" where
  "headered text =
     (let finalRankingIdx = indexOf text MARKER in
      if finalRankingIdx \<noteq> - 1 then
        (let section = slice text finalRankingIdx in
         case str_match section numbered_re of
           None \<Rightarrow> bare_labels section
         | Some matches \<Rightarrow>
             if 0 < length matches then Some (map (replace_empty ordinal_re) matches)
             else bare_labels section)
      else None)"

text \<open>Strategy 4 of the source, the chain \<^verbatim>\<open>A > B > C\<close>; it reads the first match only.\<close>

definition gt_labels :: "jsstring \<Rightarrow> jsstring list" where
  "gt_labels text =
     (case str_match text gt_re of
        None \<Rightarrow> []
      | Some gtPattern \<Rightarrow>
          (let letters = map trim (split_on GT (hd gtPattern)) in
           if list_all (test single_upper_re) letters
           then map (\<lambda>l. js ''Response '' @ l) letters
           else []))"

text \<open>Strategy 3 of the source, the mentions in order without repetition, and what
  follows it.\<close>

definition mention_labels :: "jsstring \<Rightarrow> jsstring list" where
  "mention_labels text =
     (case str_match text mention_re of
        None \<Rightarrow> gt_labels text
      | Some mentions \<Rightarrow> if 0 < length mentions then new_Set mentions else gt_labels text)"

text \<open>Strategy 2 of the source, the numbered list anywhere in the text, and what
  follows it. The source reaches it whenever the guarded block has not returned.\<close>

definition unheadered :: "jsstring \<Rightarrow> jsstring list" where
  "unheadered text =
     (case str_match text numbered_re of
        None \<Rightarrow> mention_labels text
      | Some numberedResponses \<Rightarrow>
          if 0 < length numberedResponses
          then map (replace_empty ordinal_re) numberedResponses
          else mention_labels text)"

definition parseRanking :: "jsstring \<Rightarrow> jsstring list" where
  "parseRanking text = (case headered text of Some r \<Rightarrow> r | None \<Rightarrow> unheadered text)"

section \<open>Numbers\<close>

text \<open>
  A JavaScript number is an IEEE 754 double. A finite double is modelled by its exact
  value, a rational, and an arithmetic operation by the exact operation followed by
  \<open>fl\<close>, rounding to the nearest double with ties to the even significand (53 bits,
  exponents from \<open>-1022\<close>, below which the spacing stays \<open>2\<^sup>-\<^sup>1\<^sup>0\<^sup>7\<^sup>4\<close>). Infinities and NaN
  have no value here: the aggregation below never divides by zero, since a list of ranks
  is created only to receive a rank at once, and its numbers stay far below the
  overflow threshold \<open>2\<^sup>1\<^sup>0\<^sup>2\<^sup>4\<close>, array lengths being below \<open>2\<^sup>3\<^sup>2\<close>.
\<close>

definition pow2 :: "int \<Rightarrow> rat" where
  "pow2 e = (if 0 \<le> e then 2 ^ nat e else 1 / 2 ^ nat (- e))"

definition ilog2 :: "rat \<Rightarrow> int" where
  \<comment> \<open>for \<open>x > 0\<close>, the exponent \<open>e\<close> with \<open>2\<^sup>e \<le> x < 2\<^sup>e\<^sup>+\<^sup>1\<close>\<close>
  "ilog2 x =
     (let e = bitlen (fst (quotient_of x)) - bitlen (snd (quotient_of x))
      in if pow2 e \<le> x then e else e - 1)"

definition round_even :: "rat \<Rightarrow> int" where
  "round_even m =
     (let f = \<lfloor>m\<rfloor>; d = m - of_int f
      in if d < 1 / 2 then f else if 1 / 2 < d then f + 1 else if even f then f else f + 1)"

definition fl :: "rat \<Rightarrow> rat" where
  "fl x =
     (if x = 0 then 0
      else (let u = pow2 (max (ilog2 \<bar>x\<bar>) (- 1022) - 52)
            in sgn x * of_int (round_even (\<bar>x\<bar> / u)) * u))"

definition js_add :: "rat \<Rightarrow> rat \<Rightarrow> rat" where
  "js_add a b = fl (a + b)"

definition js_mul :: "rat \<Rightarrow> rat \<Rightarrow> rat" where
  "js_mul a b = fl (a * b)"

definition js_div :: "rat \<Rightarrow> rat \<Rightarrow> rat" where
  "js_div a b = fl (a / b)"

text \<open>\<^verbatim>\<open>Math.round\<close>: the nearest integer, the larger one of two equally near.\<close>

definition Math_round :: "rat \<Rightarrow> rat" where
  "Math_round x = of_int \<lfloor>x + 1 / 2\<rfloor>"

section \<open>Objects used as dictionaries\<close>

text \<open>
  \<^verbatim>\<open>labelToModel\<close> and \<^verbatim>\<open>modelRanks\<close> are ordinary objects, the second one created by
  \<^verbatim>\<open>{}\<close>: the own properties are kept in the order of their creation, a read of a
  name that the object does not own goes on to \<^verbatim>\<open>Object.prototype\<close>, and
  \<^verbatim>\<open>Object.entries\<close> lists the own properties whose names are array indices first, in
  ascending numeric order, and the others after them in the order of creation.
\<close>

type_synonym 'v jsobject = "(jsstring \<times> 'v) list"

definition Object_prototype_names :: "jsstring list" where
  "Object_prototype_names = map js
     [''constructor'', ''__defineGetter__'', ''__defineSetter__'', ''hasOwnProperty'',
      ''__lookupGetter__'', ''__lookupSetter__'', ''isPrototypeOf'', ''propertyIsEnumerable'',
      ''toString'', ''valueOf'', ''__proto__'', ''toLocaleString'']"

text \<open>What a read \<^verbatim>\<open>obj[name]\<close> finds: the value of the own property, or the member of
  \<^verbatim>\<open>Object.prototype\<close> of that name, or \<^verbatim>\<open>undefined\<close>.\<close>

datatype 'v looked_up = Own 'v | Inherited jsstring | Undefined

definition get_property :: "'v jsobject \<Rightarrow> jsstring \<Rightarrow> 'v looked_up" where
  "get_property obj name =
     (case map_of obj name of
        Some v \<Rightarrow> Own v
      | None \<Rightarrow> if name \<in> set Object_prototype_names then Inherited name else Undefined)"

text \<open>The string that a member of \<^verbatim>\<open>Object.prototype\<close> becomes where it is used as a
  property name: \<^verbatim>\<open>__proto__\<close> reads as \<^verbatim>\<open>Object.prototype\<close> itself, \<^verbatim>\<open>constructor\<close> is
  the function \<^verbatim>\<open>Object\<close>, and every other member is a built-in function that bears the
  name of the property (the text of a built-in function is the one of V8).\<close>

definition inherited_text :: "jsstring \<Rightarrow> jsstring" where
  "inherited_text name =
     (if name = js ''__proto__'' then js ''[object Object]''
      else js ''function '' @ (if name = js ''constructor'' then js ''Object'' else name)
           @ js ''() { [native code] }'')"

definition digits_value :: "jsstring \<Rightarrow> int" where
  "digits_value s = foldl (\<lambda>a c. 10 * a + uint (c - 0x30)) 0 s"

text \<open>An array index is the canonical decimal numeral of an integer from \<open>0\<close> to
  \<open>2\<^sup>3\<^sup>2 - 2\<close>.\<close>

definition array_index :: "jsstring \<Rightarrow> int option" where
  "array_index s =
     (if s \<noteq> [] \<and> list_all is_digit s \<and> (length s = 1 \<or> hd s \<noteq> 0x30)
         \<and> digits_value s \<le> 4294967294
      then Some (digits_value s) else None)"

definition Object_entries :: "'v jsobject \<Rightarrow> (jsstring \<times> 'v) list" where
  "Object_entries obj =
     sort_key (\<lambda>kv. the (array_index (fst kv))) (filter (\<lambda>kv. array_index (fst kv) \<noteq> None) obj)
     @ filter (\<lambda>kv. array_index (fst kv) = None) obj"

text \<open>What is thrown: an \<^verbatim>\<open>Error\<close> object with its message, or any other value with the
  string \<^verbatim>\<open>String\<close> makes of it.\<close>

datatype thrown = ErrorObj jsstring | NonError jsstring

section \<open>The data of a council run\<close>

datatype role = User | Assistant | System

record ChatMessage =
  role :: role
  content :: jsstring

record Stage1Entry =
  model :: jsstring
  response :: jsstring

record Stage2Ranking =
  ranker :: jsstring
  evaluation :: jsstring
  parsed_ranking :: "jsstring list"

record AggregateRanking =
  agg_model :: jsstring
  average_rank :: rat
  rankings_count :: nat

record Stage2Result =
  rankings :: "Stage2Ranking list"
  label_to_model :: "jsstring jsobject"
  aggregate_rankings :: "AggregateRanking list"

record Stage3Result =
  chairman :: jsstring
  synthesis :: jsstring

record CouncilResult =
  query :: jsstring
  stage1 :: "Stage1Entry list option"
  stage2 :: "Stage2Result option"
  stage3 :: "Stage3Result option"
  error :: "jsstring option"

section \<open>Aggregate rankings\<close>

text \<open>
  The body of the inner loop of \<^verbatim>\<open>calculateAggregateRankings\<close> for the label at index
  \<open>i\<close>. The value read from \<^verbatim>\<open>labelToModel\<close> is falsy where it is \<^verbatim>\<open>undefined\<close> or the
  empty string; an inherited member is truthy and is turned into a string where it is
  used as the property name. The read \<^verbatim>\<open>modelRanks[model]\<close> is falsy only for a name
  that \<^verbatim>\<open>modelRanks\<close> neither owns nor inherits: an array is truthy, and so is every
  member of \<^verbatim>\<open>Object.prototype\<close>. For an inherited name no array is created, and the
  call of \<^verbatim>\<open>push\<close>, which no such member has, throws a \<^verbatim>\<open>TypeError\<close> (the message is
  the one of V8).
\<close>

definition push_TypeError :: thrown where
  "push_TypeError = ErrorObj (js ''modelRanks[model].push is not a function'')"

definition push_rank ::
  "jsstring \<Rightarrow> nat \<Rightarrow> nat list jsobject \<Rightarrow> thrown + nat list jsobject" where
  "push_rank m i modelRanks =
     (let modelRanks' =
        (if get_property modelRanks m = Undefined then modelRanks @ [(m, [])] else modelRanks)
      in case get_property modelRanks' m of
           Own ranks \<Rightarrow> Inr (AList.update m (ranks @ [i + 1]) modelRanks')
         | Inherited name \<Rightarrow> Inl push_TypeError
         | Undefined \<Rightarrow> Inl push_TypeError)"

definition record_rank ::
  "jsstring jsobject \<Rightarrow> jsstring \<Rightarrow> nat \<Rightarrow> nat list jsobject \<Rightarrow> thrown + nat list jsobject" where
  "record_rank labelToModel label i modelRanks =
     (case get_property labelToModel label of
        Undefined \<Rightarrow> Inr modelRanks
      | Own m \<Rightarrow> if m = [] then Inr modelRanks else push_rank m i modelRanks
      | Inherited name \<Rightarrow> push_rank (inherited_text name) i modelRanks)"

fun rank_labels ::
  "jsstring jsobject \<Rightarrow> jsstring list \<Rightarrow> nat \<Rightarrow> nat list jsobject \<Rightarrow> thrown + nat list jsobject" where
  "rank_labels labelToModel [] i modelRanks = Inr modelRanks"
| "rank_labels labelToModel (label # rest) i modelRanks =
     (case record_rank labelToModel label i modelRanks of
        Inl e \<Rightarrow> Inl e
      | Inr modelRanks' \<Rightarrow> rank_labels labelToModel rest (Suc i) modelRanks')"

fun rank_all ::
  "jsstring jsobject \<Rightarrow> Stage2Ranking list \<Rightarrow> nat list jsobject \<Rightarrow> thrown + nat list jsobject" where
  "rank_all labelToModel [] modelRanks = Inr modelRanks"
| "rank_all labelToModel (ranking # rest) modelRanks =
     (case rank_labels labelToModel (parsed_ranking ranking) 0 modelRanks of
        Inl e \<Rightarrow> Inl e
      | Inr modelRanks' \<Rightarrow> rank_all labelToModel rest modelRanks')"

text \<open>\<^verbatim>\<open>Math.round((ranks.reduce((a, b) => a + b, 0) / ranks.length) * 100) / 100\<close>.\<close>

definition average_of :: "nat list \<Rightarrow> rat" where
  "average_of ranks =
     js_div (Math_round (js_mul (js_div (foldl js_add 0 (map of_nat ranks))
                                        (of_nat (length ranks))) 100)) 100"

definition aggregate_entry :: "jsstring \<times> nat list \<Rightarrow> AggregateRanking" where
  "aggregate_entry kv =
     \<lparr>agg_model = fst kv, average_rank = average_of (snd kv), rankings_count = length (snd kv)\<rparr>"

text \<open>\<^verbatim>\<open>Array.prototype.sort\<close> is stable, and the difference of two finite doubles has the
  sign of their comparison, so the comparator \<^verbatim>\<open>a.average_rank - b.average_rank\<close> sorts by
  that key.\<close>

definition calculateAggregateRankings ::
  "Stage2Ranking list \<Rightarrow> jsstring jsobject \<Rightarrow> thrown + AggregateRanking list" where
  "calculateAggregateRankings rankings\<^sub>0 labelToModel =
     (case rank_all labelToModel rankings\<^sub>0 [] of
        Inl e \<Rightarrow> Inl e
      | Inr modelRanks \<Rightarrow>
          Inr (sort_key average_rank (map aggregate_entry (Object_entries modelRanks))))"

section \<open>Prompts\<close>

definition DQUOTE :: cu where "DQUOTE = 0x22"
definition APOS :: cu where "APOS = 0x27"

text \<open>\<^verbatim>\<open>xs.join(sep)\<close>.\<close>

fun join :: "jsstring \<Rightarrow> jsstring list \<Rightarrow> jsstring" where
  "join sep [] = []"
| "join sep [x] = x"
| "join sep (x # y # ys) = x @ sep @ join sep (y # ys)"

definition buildRankingPrompt :: "jsstring \<Rightarrow> (jsstring \<times> jsstring) list \<Rightarrow> jsstring" where
  "buildRankingPrompt q responses =
     (let responsesBlock =
        join (js ''\<newline>\<newline>'') (map (\<lambda>(label, text). label @ js '':\<newline>'' @ text) responses)
      in
      js ''You are evaluating different responses to the following question:\<newline>'' @
      js ''\<newline>'' @
      js ''Question: '' @
      q @
      js ''\<newline>'' @
      js ''\<newline>'' @
      js ''Here are the responses from different models (anonymized):\<newline>'' @
      js ''\<newline>'' @
      responsesBlock @
      js ''\<newline>'' @
      js ''\<newline>'' @
      js ''Your task:\<newline>'' @
      js ''1. First, evaluate each response individually. For each response, explain what it does well and what it does poorly.\<newline>'' @
      js ''2. Then, at the very end of your response, provide a final ranking.\<newline>'' @
      js ''\<newline>'' @
      js ''IMPORTANT: Your final ranking MUST be formatted EXACTLY as follows:\<newline>'' @
      js ''- Start with the line '' @
      [DQUOTE] @
      js ''FINAL RANKING:'' @
      [DQUOTE] @
      js '' (all caps, with colon)\<newline>'' @
      js ''- Then list the responses from best to worst as a numbered list\<newline>'' @
      js ''- Each line should be: number, period, space, then ONLY the response label (e.g., '' @
      [DQUOTE] @
      js ''1. Response A'' @
      [DQUOTE] @
      js '')\<newline>'' @
      js ''- Do not add any other text or explanations in the ranking section\<newline>'' @
      js ''\<newline>'' @
      js ''Example of the correct format:\<newline>'' @
      js ''\<newline>'' @
      js ''FINAL RANKING:\<newline>'' @
      js ''1. Response C\<newline>'' @
      js ''2. Response A\<newline>'' @
      js ''3. Response B\<newline>'' @
      js ''\<newline>'' @
      js ''Now provide your evaluation and ranking:'')"

definition buildChairmanPrompt ::
  "jsstring \<Rightarrow> Stage1Entry list \<Rightarrow> Stage2Ranking list \<Rightarrow> jsstring" where
  "buildChairmanPrompt q entries rs =
     (let responsesBlock =
        join (js ''\<newline>\<newline>'')
          (map (\<lambda>r. js ''Model: '' @ model r @ js ''\<newline>Response: '' @ response r) entries);
          rankingsBlock =
        join (js ''\<newline>\<newline>'')
          (map (\<lambda>r. js ''Model: '' @ ranker r @ js ''\<newline>Ranking: '' @ evaluation r) rs)
      in
      js ''You are the Chairman of an LLM Council. Multiple AI models have provided responses to a user'' @
      [APOS] @
      js ''s question, and then ranked each other'' @
      [APOS] @
      js ''s responses.\<newline>'' @
      js ''\<newline>'' @
      js ''Original Question: '' @
      q @
      js ''\<newline>'' @
      js ''\<newline>'' @
      js ''STAGE 1 - Individual Responses:\<newline>'' @
      responsesBlock @
      js ''\<newline>'' @
      js ''\<newline>'' @
      js ''STAGE 2 - Peer Rankings:\<newline>'' @
      rankingsBlock @
      js ''\<newline>'' @
      js ''\<newline>'' @
      js ''Your task is to synthesize all of this information into a single, comprehensive, accurate answer to the original question. Consider:\<newline>'' @
      js ''- The individual responses and their insights\<newline>'' @
      js ''- The peer rankings and what they reveal about response quality\<newline>'' @
      js ''- Any patterns of agreement or disagreement\<newline>'' @
      js ''\<newline>'' @
      js ''IMPORTANT: Respond with the answer DIRECTLY. Do NOT include any preamble, introduction, or meta-commentary about being a chairman, synthesizing responses, or the council process. Just provide the final answer as if you were answering the question yourself.'')"

section \<open>The council\<close>

text \<open>
  The provider is the capability \<^verbatim>\<open>chat(model, messages)\<close>, whose promise is fulfilled with
  a text or rejected with whatever was thrown. A run issues its calls in a fixed order
  (Stage 1 in the order of the models, then Stage 2 in that order, then the chairman),
  and \<^verbatim>\<open>Promise.allSettled\<close> keeps every outcome at the position of its call, whatever the
  order in which the calls settle. So a provider is given by the outcome of the \<open>n\<close>-th
  call of the run, which may depend on \<open>n\<close> and on the arguments; every behaviour of a
  real provider during one run is one such function. Logging does not touch the result
  and is left out.
\<close>

type_synonym provider = "nat \<Rightarrow> jsstring \<Rightarrow> ChatMessage list \<Rightarrow> thrown + jsstring"

record LLMCouncil =
  models :: "jsstring list"
  chairmanModel :: jsstring

definition user_message :: "jsstring \<Rightarrow> ChatMessage list" where
  "user_message c = [\<lparr>role = User, content = c\<rparr>]"

text \<open>The loop over the settled results that keeps the values of the fulfilled ones.\<close>

fun fulfilled :: "('e + 'a) list \<Rightarrow> 'a list" where
  "fulfilled [] = []"
| "fulfilled (Inr v # rest) = v # fulfilled rest"
| "fulfilled (Inl e # rest) = fulfilled rest"

text \<open>\<^verbatim>\<open>err instanceof Error ? err.message : String(err)\<close>.\<close>

fun thrown_text :: "thrown \<Rightarrow> jsstring" where
  "thrown_text (ErrorObj message) = message"
| "thrown_text (NonError s) = s"

text \<open>Stage 1. The argument \<open>k\<close> is the number of calls made before the stage.\<close>

definition LLMCouncil_stage1 ::
  "LLMCouncil \<Rightarrow> provider \<Rightarrow> nat \<Rightarrow> jsstring \<Rightarrow> thrown + Stage1Entry list" where
  "LLMCouncil_stage1 this chat k q =
     (let results =
        map (\<lambda>(i, m). case chat (k + i) m (user_message q) of
                          Inl reason \<Rightarrow> Inl reason
                        | Inr r \<Rightarrow> Inr \<lparr>model = m, response = r\<rparr>)
            (enumerate 0 (models this));
          entries = fulfilled results
      in if length entries = 0
         then Inl (ErrorObj (js ''All models failed to respond in Stage 1''))
         else Inr entries)"

text \<open>Stage 2. \<^verbatim>\<open>String.fromCharCode\<close> keeps the low 16 bits of its argument, as the
  conversion to a 16-bit word does; an assignment to a property of \<^verbatim>\<open>labelToModel\<close>
  replaces the value of a label that is there and adds the label at the end otherwise.\<close>

definition label_of :: "nat \<Rightarrow> jsstring" where
  "label_of i = js ''Response '' @ [of_nat (65 + i)]"

definition anonymize ::
  "Stage1Entry list \<Rightarrow> (jsstring \<times> jsstring) list \<times> jsstring jsobject" where
  "anonymize entries =
     (map (\<lambda>(i, entry). (label_of i, response entry)) (enumerate 0 entries),
      foldl (\<lambda>labelToModel (i, entry). AList.update (label_of i) (model entry) labelToModel)
            [] (enumerate 0 entries))"

definition LLMCouncil_stage2 ::
  "LLMCouncil \<Rightarrow> provider \<Rightarrow> nat \<Rightarrow> jsstring \<Rightarrow> Stage1Entry list \<Rightarrow> thrown + Stage2Result" where
  "LLMCouncil_stage2 this chat k q entries =
     (let (anonymized, labelToModel) = anonymize entries;
          prompt = buildRankingPrompt q anonymized;
          results =
            map (\<lambda>(i, m). case chat (k + i) m (user_message prompt) of
                              Inl reason \<Rightarrow> Inl reason
                            | Inr ev \<Rightarrow>
                                Inr \<lparr>ranker = m, evaluation = ev, parsed_ranking = parseRanking ev\<rparr>)
                (enumerate 0 (models this));
          rs = fulfilled results
      in case calculateAggregateRankings rs labelToModel of
           Inl e \<Rightarrow> Inl e
         | Inr aggregateRankings \<Rightarrow>
             Inr \<lparr>rankings = rs, label_to_model = labelToModel,
                  aggregate_rankings = aggregateRankings\<rparr>)"

text \<open>Stage 3.\<close>

definition LLMCouncil_stage3 ::
  "LLMCouncil \<Rightarrow> provider \<Rightarrow> nat \<Rightarrow> jsstring \<Rightarrow> Stage1Entry list \<Rightarrow> Stage2Ranking list
     \<Rightarrow> thrown + Stage3Result" where
  "LLMCouncil_stage3 this chat k q entries stage2Rankings =
     (let prompt = buildChairmanPrompt q entries stage2Rankings
      in case chat k (chairmanModel this) (user_message prompt) of
           Inl e \<Rightarrow> Inl e
         | Inr r \<Rightarrow> Inr \<lparr>chairman = chairmanModel this, synthesis = r\<rparr>)"

text \<open>\<^verbatim>\<open>run\<close>: each \<^verbatim>\<open>try\<close> block either stores the result of its stage or records the
  error and returns.\<close>

definition LLMCouncil_run :: "LLMCouncil \<Rightarrow> provider \<Rightarrow> jsstring \<Rightarrow> CouncilResult" where
  "LLMCouncil_run this chat q =
     (let n = length (models this);
          result = \<lparr>query = q, stage1 = None, stage2 = None, stage3 = None, error = None\<rparr>
      in case LLMCouncil_stage1 this chat 0 q of
           Inl err \<Rightarrow> result\<lparr>error := Some (js ''Stage 1 failed: '' @ thrown_text err)\<rparr>
         | Inr s1 \<Rightarrow>
            (let result = result\<lparr>stage1 := Some s1\<rparr>
             in case LLMCouncil_stage2 this chat n q s1 of
                  Inl err \<Rightarrow> result\<lparr>error := Some (js ''Stage 2 failed: '' @ thrown_text err)\<rparr>
                | Inr s2 \<Rightarrow>
                   (let result = result\<lparr>stage2 := Some s2\<rparr>
                    in case LLMCouncil_stage3 this chat (2 * n) q s1 (rankings s2) of
                         Inl err \<Rightarrow>
                           result\<lparr>error := Some (js ''Stage 3 failed: '' @ thrown_text err)\<rparr>
                       | Inr s3 \<Rightarrow> result\<lparr>stage3 := Some s3\<rparr>)))"

section \<open>Notions used to state the properties\<close>

text \<open>The code unit before the position reached after reading \<open>w\<close>.\<close>

definition after :: "jsstring \<Rightarrow> cu option \<Rightarrow> cu option" where
  "after w p = (if w = [] then p else Some (last w))"

text \<open>A regular expression that cannot match where the input starts with a code unit
  of the class \<open>P\<close>: after a greedy run of \<open>P\<close> it leaves backtracking nothing to try.\<close>

definition rejects :: "(cu \<Rightarrow> bool) \<Rightarrow> re \<Rightarrow> bool" where
  "rejects P b \<longleftrightarrow> (\<forall>p x xs. P x \<longrightarrow> ms b (p, x # xs) = [])"

text \<open>A numbered item as the ranking prompt asks for it: digits, a period, optional
  whitespace and a full label. A numbered list is a sequence of items, each followed by
  text without digits.\<close>

definition numbered_item :: "jsstring \<Rightarrow> jsstring \<Rightarrow> cu \<Rightarrow> jsstring" where
  "numbered_item ds ws l = ds @ [DOT] @ ws @ js ''Response '' @ [l]"

type_synonym item = "jsstring \<times> jsstring \<times> cu \<times> jsstring"

definition item_ok :: "item \<Rightarrow> bool" where
  "item_ok it =
     (case it of (ds, ws, l, gap) \<Rightarrow>
        ds \<noteq> [] \<and> list_all is_digit ds \<and> list_all is_space ws \<and> is_upper l
        \<and> list_all (\<lambda>c. \<not> is_digit c) gap)"

definition item_text :: "item \<Rightarrow> jsstring" where
  "item_text it = (case it of (ds, ws, l, gap) \<Rightarrow> numbered_item ds ws l)"

definition item_label :: "item \<Rightarrow> jsstring" where
  "item_label it = (case it of (ds, ws, l, gap) \<Rightarrow> js ''Response '' @ [l])"

definition render_items :: "item list \<Rightarrow> jsstring" where
  "render_items items = concat (map (\<lambda>(ds, ws, l, gap). numbered_item ds ws l @ gap) items)"

text \<open>A chain as Strategy 4 reads it: an uppercase letter followed by links, each made
  of optional whitespace, \<^verbatim>\<open>>\<close>, optional whitespace and an uppercase letter. The
  repeated group of the chain expression is one link.\<close>

type_synonym link = "jsstring \<times> jsstring \<times> cu"

definition link_ok :: "link \<Rightarrow> bool" where
  "link_ok k = (case k of (w1, w2, l) \<Rightarrow> list_all is_space w1 \<and> list_all is_space w2 \<and> is_upper l)"

definition link_text :: "link \<Rightarrow> jsstring" where
  "link_text k = (case k of (w1, w2, l) \<Rightarrow> w1 @ [GT] @ w2 @ [l])"

definition link_letter :: "link \<Rightarrow> cu" where
  "link_letter k = (case k of (w1, w2, l) \<Rightarrow> l)"

definition gt_run :: "cu \<Rightarrow> link list \<Rightarrow> jsstring" where
  "gt_run l links = l # concat (map link_text links)"

definition gt_group :: re where
  "gt_group = Seq (Star (Cls is_space)) (Seq (Lit GT) (Seq (Star (Cls is_space)) (Cls is_upper)))"

text \<open>A chain begins in a text right after its part \<open>a\<close>, at a word boundary: \<open>a\<close> is
  empty or ends with a code unit that is not a letter, a digit or an underscore, and what
  follows \<open>a\<close> begins with an uppercase letter and one link or more.\<close>

definition chain_at :: "jsstring \<Rightarrow> jsstring \<Rightarrow> bool" where
  "chain_at a s \<longleftrightarrow>
     (a = [] \<or> \<not> is_word (last a)) \<and>
     (\<exists>l links rest. is_upper l \<and> links \<noteq> [] \<and> list_all link_ok links
        \<and> s = gt_run l links @ rest)"


text \<open>The rankings that Stage 2 collects: for the configured models whose ranking
  request succeeded, in their order, the reply and what the parser makes of it.\<close>

definition evaluations ::
  "LLMCouncil \<Rightarrow> provider \<Rightarrow> nat \<Rightarrow> jsstring \<Rightarrow> Stage1Entry list \<Rightarrow> Stage2Ranking list" where
  "evaluations this chat k q entries =
     map (\<lambda>i. let ev = projr (chat (k + i) (models this ! i)
                               (user_message (buildRankingPrompt q (fst (anonymize entries)))))
              in \<lparr>ranker = models this ! i, evaluation = ev, parsed_ranking = parseRanking ev\<rparr>)
         (filter (\<lambda>i. \<not> isl (chat (k + i) (models this ! i)
                               (user_message (buildRankingPrompt q (fst (anonymize entries))))))
                 [0..<length (models this)])"

text \<open>The uppercase English letters in order.\<close>

definition ALPHABET :: jsstring where
  "ALPHABET = js ''ABCDEFGHIJKLMNOPQRSTUVWXYZ''"

section \<open>Councils and providers for the concrete runs\<close>

text \<open>A provider that answers the first \<open>n\<close> calls (Stage 1), replies to the next
  \<open>n\<close> with a fixed ranking text (Stage 2) and gives the chairman's call a fixed outcome;
  one that refuses every call; one whose second call times out.\<close>

definition scripted :: "nat \<Rightarrow> jsstring \<Rightarrow> thrown + jsstring \<Rightarrow> provider" where
  "scripted n ranking_reply chairman_reply =
     (\<lambda>i m msgs. if i < n then Inr (js ''Answer from '' @ m)
                 else if i < 2 * n then Inr ranking_reply
                 else chairman_reply)"

definition refusing :: provider where
  "refusing = (\<lambda>i m msgs. Inl (ErrorObj (js ''connection refused'')))"

definition flaky :: provider where
  "flaky = (\<lambda>i m msgs. if i = 1 then Inl (NonError (js ''timeout'')) else Inr (js ''Answer from '' @ m))"

definition ranking_BA :: jsstring where
  "ranking_BA = js ''FINAL RANKING:\<newline>1. Response B\<newline>2. Response A''"

definition council_a :: LLMCouncil where
  "council_a = \<lparr>models = [js ''model-a''], chairmanModel = js ''model-a''\<rparr>"

definition council_ab :: LLMCouncil where
  "council_ab = \<lparr>models = [js ''model-a'', js ''model-b''], chairmanModel = js ''model-a''\<rparr>"

definition council_abc :: LLMCouncil where
  "council_abc = \<lparr>models = [js ''model-a'', js ''model-b'', js ''model-c''],
                  chairmanModel = js ''model-a''\<rparr>"

definition council_constructor :: LLMCouncil where
  "council_constructor = \<lparr>models = [js ''constructor''], chairmanModel = js ''constructor''\<rparr>"

section \<open>The matcher on the expressions of the parser\<close>

declare ms.simps(6) [simp del]
declare match_all.simps [simp del]

lemma concat_map_concat:
  "concat (map f (concat (map g xs))) = concat (map (\<lambda>x. concat (map f (g x))) xs)"
  by (induction xs) auto

lemma ms_Seq_fun: "ms (Seq b c) = (\<lambda>q. concat (map (ms c) (ms b q)))"
  by (rule ext) simp

lemma ms_Seq_assoc: "ms (Seq (Seq a b) c) q = ms (Seq a (Seq b c)) q"
  by (simp add: concat_map_concat ms_Seq_fun)

lemma ms_Seq_Lit:
  "ms (Seq (Lit c) b) (p, s) = (case s of [] \<Rightarrow> [] | x # xs \<Rightarrow> if x = c then ms b (Some x, xs) else [])"
  by (cases s) auto

lemma ms_Seq_Cls:
  "ms (Seq (Cls P) b) (p, s) = (case s of [] \<Rightarrow> [] | x # xs \<Rightarrow> if P x then ms b (Some x, xs) else [])"
  by (cases s) auto

lemma ms_Seq_Eps: "ms (Seq Eps b) q = ms b q"
  by simp

lemma ms_Seq_Bol: "ms (Seq Bol b) (p, s) = (if p = None then ms b (p, s) else [])"
  by auto

lemma ms_Seq_Plus: "ms (Seq (Plus a) b) q = ms (Seq a (Seq (Star a) b)) q"
  by (simp add: Plus_def concat_map_concat ms_Seq_fun)

lemma ms_Star_Cls:
  "ms (Star (Cls P)) (p, s) =
     (case s of [] \<Rightarrow> [(p, [])]
      | x # xs \<Rightarrow> if P x then ms (Star (Cls P)) (Some x, xs) @ [(p, s)] else [(p, s)])"
  by (subst ms.simps(6)) (auto split: list.splits)

lemma ms_Seq_Star_Cls:
  assumes "rejects P b"
  shows "ms (Seq (Star (Cls P)) b) (p, s) = ms b (after (takeWhile P s) p, dropWhile P s)"
proof (induction s arbitrary: p)
  case Nil
  show ?case by (simp add: ms_Star_Cls after_def)
next
  case (Cons x xs)
  show ?case
  proof (cases "P x")
    case True
    have "ms (Seq (Star (Cls P)) b) (p, x # xs)
        = ms (Seq (Star (Cls P)) b) (Some x, xs) @ ms b (p, x # xs)"
      using True by (simp add: ms_Star_Cls)
    also have "ms b (p, x # xs) = []"
      using assms True by (simp add: rejects_def)
    finally show ?thesis
      using True Cons.IH [of "Some x"] by (simp add: after_def)
  next
    case False
    then show ?thesis by (simp add: ms_Star_Cls after_def)
  qed
qed

lemma ms_Star_Cls_hd:
  "\<exists>rest. ms (Star (Cls P)) (p, s) = (after (takeWhile P s) p, dropWhile P s) # rest"
proof (induction s arbitrary: p)
  case Nil
  show ?case by (simp add: ms_Star_Cls after_def)
next
  case (Cons x xs)
  show ?case
  proof (cases "P x")
    case True
    from Cons.IH [of "Some x"] obtain rest where
      "ms (Star (Cls P)) (Some x, xs) = (after (takeWhile P xs) (Some x), dropWhile P xs) # rest"
      by blast
    then show ?thesis using True
      by (subst ms_Star_Cls) (simp add: after_def)
  next
    case False
    then show ?thesis by (subst ms_Star_Cls) (simp add: after_def)
  qed
qed

lemma lits_Nil: "lits [] = Eps"
  by (simp add: lits_def)

lemma lits_Cons: "lits (c # w) = Seq (Lit c) (lits w)"
  by (simp add: lits_def)

lemma ms_Seq_lits:
  "ms (Seq (lits w) b) (p, s) =
     (if prefix w s then ms b (after w p, drop (length w) s) else [])"
proof (induction w arbitrary: p s)
  case Nil
  show ?case by (simp add: lits_Nil after_def)
next
  case (Cons c w)
  have "ms (Seq (lits (c # w)) b) (p, s) = ms (Seq (Lit c) (Seq (lits w) b)) (p, s)"
    unfolding lits_Cons by (rule ms_Seq_assoc)
  then show ?case
    using Cons.IH by (cases s) (auto simp: ms_Seq_Lit after_def)
qed

lemma rejects_Seq_Lit: "\<not> P c \<Longrightarrow> rejects P (Seq (Lit c) b)"
  by (auto simp: rejects_def)

lemma rejects_Seq_Cls: "(\<And>x. P x \<Longrightarrow> \<not> Q x) \<Longrightarrow> rejects P (Seq (Cls Q) b)"
  by (auto simp: rejects_def)

lemma rejects_Seq_lits: "\<not> P c \<Longrightarrow> rejects P (Seq (lits (c # w)) b)"
  unfolding rejects_def by (auto simp: ms_Seq_lits simp del: ms.simps)

lemma rejects_Cls: "(\<And>x. P x \<Longrightarrow> \<not> Q x) \<Longrightarrow> rejects P (Cls Q)"
  by (auto simp: rejects_def)

lemma js_Response: "js ''Response '' = [82, 101, 115, 112, 111, 110, 115, 101, 32]"
  by (simp add: js_def)

lemma not_digit_DOT: "\<not> is_digit DOT"
  by (simp add: is_digit_def DOT_def)

lemma not_space_R: "\<not> is_space 82"
  by (simp add: is_space_def)

lemma not_space_GT: "\<not> is_space GT"
  by (simp add: is_space_def GT_def)

lemma not_space_upper: "is_upper c \<Longrightarrow> \<not> is_space c"
  unfolding is_upper_def is_space_def by (auto simp: word_le_def word_less_def)

lemma dropWhile_all: "list_all P xs \<Longrightarrow> \<not> P y \<Longrightarrow> dropWhile P (xs @ y # ys) = y # ys"
  by (induction xs) auto

lemma takeWhile_all: "list_all P xs \<Longrightarrow> \<not> P y \<Longrightarrow> takeWhile P (xs @ y # ys) = xs"
  by (induction xs) auto


lemma length_js_Response: "length (js ''Response '') = 9"
  by (simp add: js_def)

lemma ms_mention:
  "ms mention_re (p, s) =
     (if prefix (js ''Response '') s
      then (case drop 9 s of [] \<Rightarrow> []
            | l # rest \<Rightarrow> if is_upper l then [(Some l, rest)] else [])
      else [])"
  unfolding mention_re_def
  by (simp add: ms_Seq_lits length_js_Response del: ms.simps(4))

lemma numbered_re_alt:
  "numbered_re = Seq (Plus (Cls is_digit)) (Seq (Lit DOT) (Seq (Star (Cls is_space)) mention_re))"
  by (simp add: numbered_re_def mention_re_def)

lemma rejects_space_mention: "rejects is_space mention_re"
  unfolding mention_re_def js_Response by (rule rejects_Seq_lits) (rule not_space_R)

lemma ms_numbered:
  "ms numbered_re (p, s) =
     (case s of [] \<Rightarrow> []
      | x # xs \<Rightarrow>
          if is_digit x then
            (case dropWhile is_digit xs of [] \<Rightarrow> []
             | d # r \<Rightarrow>
                 if d = DOT
                 then ms mention_re (after (takeWhile is_space r) (Some d), dropWhile is_space r)
                 else [])
          else [])"
proof -
  have r1: "rejects is_digit (Seq (Lit DOT) b)" for b
    by (rule rejects_Seq_Lit) (rule not_digit_DOT)
  show ?thesis
    unfolding numbered_re_alt
    by (simp add: ms_Seq_Plus ms_Seq_Cls ms_Seq_Star_Cls [OF r1] ms_Seq_Lit
          ms_Seq_Star_Cls [OF rejects_space_mention] del: ms.simps
          cong: list.case_cong if_cong)
qed

lemma ms_mention_label: "is_upper l \<Longrightarrow> ms mention_re (p, js ''Response '' @ l # rest) = [(Some l, rest)]"
  by (simp add: ms_mention length_js_Response)

lemma ms_numbered_item:
  assumes "ds \<noteq> []" "list_all is_digit ds" "list_all is_space ws" "is_upper l"
  shows "ms numbered_re (p, numbered_item ds ws l @ rest) = [(Some l, rest)]"
proof -
  obtain x xs where ds: "ds = x # xs" using assms(1) by (cases ds) auto
  have dx: "is_digit x" "list_all is_digit xs" using assms(2) ds by auto
  have 1: "dropWhile is_digit (xs @ DOT # ws @ js ''Response '' @ l # rest)
             = DOT # ws @ js ''Response '' @ l # rest"
    using dx(2) not_digit_DOT by (rule dropWhile_all)
  have 2: "dropWhile is_space (ws @ js ''Response '' @ l # rest) = js ''Response '' @ l # rest"
    using dropWhile_all [OF assms(3) not_space_R] by (simp add: js_Response)
  show ?thesis
    by (simp add: ms_numbered numbered_item_def ds dx 1 2 ms_mention_label [OF assms(4)]
          del: ms.simps)
qed

lemma ms_numbered_nondigit: "\<not> is_digit x \<Longrightarrow> ms numbered_re (p, x # xs) = []"
  by (simp add: ms_numbered)

lemma ms_numbered_Nil: "ms numbered_re (p, []) = []"
  by (simp add: ms_numbered)


lemma match_all_Nil: "ms r (p, []) = [] \<Longrightarrow> match_all r p [] = []"
  by (subst match_all.simps) (simp add: exec_at_def)

lemma match_all_skip:
  "ms r (p, x # xs) = [] \<Longrightarrow> match_all r p (x # xs) = match_all r (Some x) xs"
  by (subst match_all.simps) (simp add: exec_at_def)

lemma match_all_hit:
  assumes "ms r (p, m @ rest) = (p', rest) # others" "m \<noteq> []"
  shows "match_all r p (m @ rest) = m # match_all r (Some (last m)) rest"
proof -
  have "exec_at r (p, m @ rest) = Some (length m)"
    using assms(1) by (simp add: exec_at_def)
  moreover have "max 1 (length m) = length m"
    using assms(2) by (cases m) auto
  ultimately show ?thesis
    using assms(2) by (subst match_all.simps) simp
qed

lemma match_all_numbered_gap:
  "list_all (\<lambda>c. \<not> is_digit c) gap \<Longrightarrow>
   match_all numbered_re p (gap @ s) = match_all numbered_re (after gap p) s"
proof (induction gap arbitrary: p)
  case Nil
  show ?case by (simp add: after_def)
next
  case (Cons c gap)
  then have "match_all numbered_re p ((c # gap) @ s) = match_all numbered_re (Some c) (gap @ s)"
    by (simp add: match_all_skip ms_numbered_nondigit)
  also have "\<dots> = match_all numbered_re (after gap (Some c)) s"
    using Cons by simp
  finally show ?case by (simp add: after_def)
qed

lemma numbered_item_not_Nil: "numbered_item ds ws l \<noteq> []"
  by (simp add: numbered_item_def)

lemma last_numbered_item: "last (numbered_item ds ws l) = l"
  by (simp add: numbered_item_def)

lemma match_all_numbered_items:
  "list_all item_ok items \<Longrightarrow>
   match_all numbered_re p (render_items items) = map item_text items"
proof (induction items arbitrary: p)
  case Nil
  show ?case by (simp add: render_items_def match_all_Nil ms_numbered_Nil)
next
  case (Cons it items)
  obtain ds ws l gap where it: "it = (ds, ws, l, gap)" by (cases it) auto
  have ok: "ds \<noteq> []" "list_all is_digit ds" "list_all is_space ws" "is_upper l"
    "list_all (\<lambda>c. \<not> is_digit c) gap"
    using Cons.prems by (auto simp: it item_ok_def)
  have "match_all numbered_re p (render_items (it # items))
      = match_all numbered_re p (numbered_item ds ws l @ (gap @ render_items items))"
    by (simp add: render_items_def it)
  also have "\<dots> = numbered_item ds ws l
       # match_all numbered_re (Some l) (gap @ render_items items)"
    using match_all_hit [OF ms_numbered_item [OF ok(1-4)] numbered_item_not_Nil]
    by (simp add: last_numbered_item)
  also have "match_all numbered_re (Some l) (gap @ render_items items)
      = match_all numbered_re (after gap (Some l)) (render_items items)"
    using ok(5) by (rule match_all_numbered_gap)
  also have "\<dots> = map item_text items"
    using Cons by simp
  finally show ?case by (simp add: it item_text_def)
qed

lemma ms_ordinal_item:
  assumes "ds \<noteq> []" "list_all is_digit ds" "list_all is_space ws" "is_upper l"
  shows "\<exists>q others. ms ordinal_re (None, numbered_item ds ws l)
                   = (q, js ''Response '' @ [l]) # others"
proof -
  obtain x xs where ds: "ds = x # xs" using assms(1) by (cases ds) auto
  have dx: "is_digit x" "list_all is_digit xs" using assms(2) ds by auto
  have r1: "rejects is_digit (Seq (Lit DOT) b)" for b
    by (rule rejects_Seq_Lit) (rule not_digit_DOT)
  have 1: "dropWhile is_digit (xs @ DOT # ws @ js ''Response '' @ [l])
             = DOT # ws @ js ''Response '' @ [l]"
    using dx(2) not_digit_DOT by (rule dropWhile_all)
  have 2: "dropWhile is_space (ws @ js ''Response '' @ [l]) = js ''Response '' @ [l]"
    using dropWhile_all [OF assms(3) not_space_R] by (simp add: js_Response)
  have "ms ordinal_re (None, numbered_item ds ws l)
      = ms (Star (Cls is_space)) (Some DOT, ws @ js ''Response '' @ [l])"
    unfolding ordinal_re_def numbered_item_def ds
    by (simp add: ms_Seq_Bol ms_Seq_Plus ms_Seq_Cls ms_Seq_Lit ms_Seq_Star_Cls [OF r1] dx 1
          del: ms.simps)
  with ms_Star_Cls_hd [of is_space "Some DOT" "ws @ js ''Response '' @ [l]"] 2
  show ?thesis by auto
qed

lemma replace_ordinal_item:
  assumes "ds \<noteq> []" "list_all is_digit ds" "list_all is_space ws" "is_upper l"
  shows "replace_empty ordinal_re (numbered_item ds ws l) = js ''Response '' @ [l]"
proof -
  from ms_ordinal_item [OF assms] obtain q others where
    m: "ms ordinal_re (None, numbered_item ds ws l) = (q, js ''Response '' @ [l]) # others"
    by blast
  obtain x xs where nx: "numbered_item ds ws l = x # xs"
    using numbered_item_not_Nil [of ds ws l] by (cases "numbered_item ds ws l") auto
  have len: "length (numbered_item ds ws l) = length ds + 1 + length ws + 10"
    by (simp add: numbered_item_def length_js_Response)
  have "exec_at ordinal_re (None, numbered_item ds ws l) = Some (length ds + 1 + length ws)"
    using m by (simp add: exec_at_def len length_js_Response)
  then have "search ordinal_re None (numbered_item ds ws l) = Some (0, length ds + 1 + length ws)"
    unfolding nx by simp
  then show ?thesis
    by (simp add: replace_empty_def) (simp add: numbered_item_def)
qed

lemma prefix_overlap:
  assumes "c \<notin> set w" "\<not> prefix (c # w) (a # pre)"
  shows "\<not> prefix (c # w) (a # pre @ c # w @ rest)"
proof
  assume "prefix (c # w) (a # pre @ c # w @ rest)"
  then have ac: "a = c" and pw: "prefix w (pre @ (c # w @ rest))" by auto
  from pw consider "prefix w pre" | us where "w = pre @ us" "prefix us (c # w @ rest)"
    by (auto simp: prefix_append)
  then show False
  proof cases
    case 1
    then show False using assms(2) ac by simp
  next
    case 2
    show False
    proof (cases us)
      case Nil
      then show False using 2 assms(2) ac by simp
    next
      case (Cons u us')
      then have "u = c" using 2(2) by simp
      then show False using 2(1) Cons assms(1) by simp
    qed
  qed
qed

lemma indexOf_from_first:
  assumes "c \<notin> set w"
  shows "indexOf_from (c # w) pre i = - 1 \<Longrightarrow>
         indexOf_from (c # w) (pre @ c # w @ rest) i = int (i + length pre)"
proof (induction pre arbitrary: i)
  case Nil
  show ?case by simp
next
  case (Cons a pre)
  from Cons.prems have np: "\<not> prefix (c # w) (a # pre)"
    by (auto split: if_splits)
  with Cons.prems have "indexOf_from (c # w) pre (Suc i) = - 1"
    by (simp del: Cons_prefix_Cons)
  then have "indexOf_from (c # w) (pre @ c # w @ rest) (Suc i) = int (Suc i + length pre)"
    by (rule Cons.IH)
  moreover have "\<not> prefix (c # w) (a # pre @ c # w @ rest)"
    using assms np by (rule prefix_overlap)
  ultimately show ?case by (simp del: Cons_prefix_Cons)
qed

lemma indexOf_from_minus1_iff: "indexOf_from pat s i = - 1 \<longleftrightarrow> \<not> sublist pat s"
proof (induction s arbitrary: i)
  case Nil
  show ?case by auto
next
  case (Cons c cs)
  show ?case
    using Cons [of "Suc i"] by (auto simp: sublist_Cons_right simp del: Cons_prefix_Cons)
qed

lemma MARKER_Cons: "MARKER = 70 # [73, 78, 65, 76, 32, 82, 65, 78, 75, 73, 78, 71, 58]"
  by (simp add: MARKER_def js_def)

lemma indexOf_MARKER_first:
  assumes "indexOf pre MARKER = - 1"
  shows "indexOf (pre @ MARKER @ rest) MARKER = int (length pre)"
proof -
  have "(70::cu) \<notin> set [73, 78, 65, 76, 32, 82, 65, 78, 75, 73, 78, 71, 58]" by simp
  from indexOf_from_first [OF this, of pre 0 rest] assms
  show ?thesis by (simp add: indexOf_def MARKER_Cons)
qed

lemma MARKER_no_digit: "list_all (\<lambda>c. \<not> is_digit c) MARKER"
  by (simp add: MARKER_Cons is_digit_def)

section \<open>The headered numbered list (claim C2)\<close>

lemma headered_first_marker:
  assumes "indexOf pre MARKER = - 1"
  shows "headered (pre @ MARKER @ body) =
     (case str_match (MARKER @ body) numbered_re of
        None \<Rightarrow> bare_labels (MARKER @ body)
      | Some matches \<Rightarrow>
          if 0 < length matches then Some (map (replace_empty ordinal_re) matches)
          else bare_labels (MARKER @ body))"
  using indexOf_MARKER_first [OF assms, of body]
  by (simp add: headered_def slice_def Let_def)

lemma replace_ordinal_item_text:
  "item_ok it \<Longrightarrow> replace_empty ordinal_re (item_text it) = item_label it"
  by (cases it) (auto simp: item_ok_def item_text_def item_label_def replace_ordinal_item)

text \<open>
  Claim C2. A text that consists of any prose \<open>pre\<close> without the marker, the marker
  \<^verbatim>\<open>FINAL RANKING:\<close>, and a numbered list of full labels (text without digits, then
  one or more items made of digits, a period, optional whitespace and \<^verbatim>\<open>Response\<close> with
  one uppercase letter, each followed by text without digits) is parsed to exactly the
  labels of the items, in order, the ordinals stripped; the prose before the marker may
  hold anything, numbered labels included. In particular the text of Scenario A is
  parsed to \<^verbatim>\<open>Response B\<close>, \<^verbatim>\<open>Response A\<close>, \<^verbatim>\<open>Response C\<close>.
\<close>

theorem parseRanking_final_ranking_list:
  assumes "indexOf pre MARKER = - 1"
    and "list_all (\<lambda>c. \<not> is_digit c) gap"
    and "items \<noteq> []"
    and "list_all item_ok items"
  shows "parseRanking (pre @ MARKER @ gap @ render_items items) = map item_label items
    \<and> parseRanking (js ''FINAL RANKING:\<newline>1. Response B\<newline>2. Response A\<newline>3. Response C'')
        = [js ''Response B'', js ''Response A'', js ''Response C'']"
proof
  have "match_all numbered_re None (MARKER @ gap @ render_items items)
      = match_all numbered_re (after (MARKER @ gap) None) (render_items items)"
    using match_all_numbered_gap [of "MARKER @ gap" None "render_items items"]
      MARKER_no_digit assms(2) by simp
  also have "\<dots> = map item_text items"
    using assms(4) by (rule match_all_numbered_items)
  finally have "str_match (MARKER @ gap @ render_items items) numbered_re
      = Some (map item_text items)"
    using assms(3) by (cases items) (auto simp: str_match_def)
  moreover have "map (replace_empty ordinal_re) (map item_text items) = map item_label items"
    using assms(4) by (induction items) (auto simp: replace_ordinal_item_text)
  ultimately show "parseRanking (pre @ MARKER @ gap @ render_items items) = map item_label items"
    using assms(3) by (simp add: parseRanking_def headered_first_marker [OF assms(1)])
next
  show "parseRanking (js ''FINAL RANKING:\<newline>1. Response B\<newline>2. Response A\<newline>3. Response C'')
        = [js ''Response B'', js ''Response A'', js ''Response C'']"
    by code_simp
qed

text \<open>The theorem at a text whose prose before the marker itself holds a numbered
  label, which the parser does not report.\<close>

theorem parseRanking_final_ranking_list_witness:
  "indexOf (js ''B is better. 1. Response C '') MARKER = - 1
   \<and> list_all item_ok
        [(js ''1'', js '' '', 0x42, js ''\<newline>''), (js ''2'', js '' '', 0x41, js ''\<newline>''),
         (js ''3'', js '' '', 0x43, [])]
   \<and> parseRanking (js ''B is better. 1. Response C FINAL RANKING:\<newline>1. Response B\<newline>2. Response A\<newline>3. Response C'')
       = [js ''Response B'', js ''Response A'', js ''Response C'']"
proof -
  let ?pre = "js ''B is better. 1. Response C ''"
  let ?items = "[(js ''1'', js '' '', 0x42, js ''\<newline>''), (js ''2'', js '' '', 0x41, js ''\<newline>''),
                 (js ''3'', js '' '', 0x43, [])] :: item list"
  have h1: "indexOf ?pre MARKER = - 1" by code_simp
  have h2: "list_all (\<lambda>c. \<not> is_digit c) (js ''\<newline>'')" by code_simp
  have h3: "?items \<noteq> []" by simp
  have h4: "list_all item_ok ?items" by code_simp
  have eq: "?pre @ MARKER @ js ''\<newline>'' @ render_items ?items
     = js ''B is better. 1. Response C FINAL RANKING:\<newline>1. Response B\<newline>2. Response A\<newline>3. Response C''"
    by code_simp
  have lab: "map item_label ?items = [js ''Response B'', js ''Response A'', js ''Response C'']"
    by code_simp
  from parseRanking_final_ranking_list [OF h1 h2 h3 h4] h1 h4 show ?thesis
    unfolding eq lab by simp
qed

section \<open>No deduplication in the numbered strategies (claim C10)\<close>

text \<open>
  Claim C10. The numbered-list strategies do not remove repetitions: the text
  \<^verbatim>\<open>FINAL RANKING:\n1. Response A\n2. Response A\<close> and the same list without the marker are
  both parsed to \<^verbatim>\<open>Response A\<close> twice, and \<^verbatim>\<open>calculateAggregateRankings\<close> then gives the
  model behind that label the ranks 1 and 2 from the one evaluation, so that its
  \<^verbatim>\<open>rankings_count\<close>, 2, exceeds the number of evaluations, 1.
\<close>

theorem numbered_strategies_keep_repetitions:
  "parseRanking (js ''FINAL RANKING:\<newline>1. Response A\<newline>2. Response A'')
     = [js ''Response A'', js ''Response A'']
   \<and> parseRanking (js ''1. Response A\<newline>2. Response A'')
     = [js ''Response A'', js ''Response A'']
   \<and> rank_all [(js ''Response A'', js ''m1'')]
        [\<lparr>ranker = js ''m2'', evaluation = js ''FINAL RANKING:\<newline>1. Response A\<newline>2. Response A'',
          parsed_ranking = parseRanking (js ''FINAL RANKING:\<newline>1. Response A\<newline>2. Response A'')\<rparr>] []
     = Inr [(js ''m1'', [1, 2])]
   \<and> map (\<lambda>a. (agg_model a, rankings_count a))
        (projr (calculateAggregateRankings
           [\<lparr>ranker = js ''m2'', evaluation = js ''FINAL RANKING:\<newline>1. Response A\<newline>2. Response A'',
             parsed_ranking = parseRanking (js ''FINAL RANKING:\<newline>1. Response A\<newline>2. Response A'')\<rparr>]
           [(js ''Response A'', js ''m1'')]))
     = [(js ''m1'', 2)]"
  by code_simp

section \<open>The stages and the run (claims C1, C4, C5)\<close>

lemma map_enumerate_upt:
  "map (\<lambda>(i, m). F i m) (enumerate k xs) = map (\<lambda>i. F (k + i) (xs ! i)) [0..<length xs]"
proof (induction xs arbitrary: k)
  case Nil
  show ?case by simp
next
  case (Cons x xs)
  show ?case
    using Cons [of "Suc k"] by (simp add: map_upt_Suc del: upt_Suc)
qed

lemma fulfilled_map:
  "fulfilled (map (\<lambda>i. case c i of Inl e \<Rightarrow> Inl e | Inr r \<Rightarrow> Inr (g i r)) ixs)
     = map (\<lambda>i. g i (projr (c i))) (filter (\<lambda>i. \<not> isl (c i)) ixs)"
  by (induction ixs) (auto split: sum.splits)

lemma stage1_entries:
  "LLMCouncil_stage1 this chat k q =
     (let entries =
        map (\<lambda>i. \<lparr>model = models this ! i,
                   response = projr (chat (k + i) (models this ! i) (user_message q))\<rparr>)
            (filter (\<lambda>i. \<not> isl (chat (k + i) (models this ! i) (user_message q)))
                    [0..<length (models this)])
      in if entries = [] then Inl (ErrorObj (js ''All models failed to respond in Stage 1''))
         else Inr entries)"
proof -
  have "map (\<lambda>(i, m). case chat (k + i) m (user_message q) of
                          Inl reason \<Rightarrow> Inl reason
                        | Inr r \<Rightarrow> Inr \<lparr>model = m, response = r\<rparr>) (enumerate 0 (models this))
      = map (\<lambda>i. case chat (k + i) (models this ! i) (user_message q) of
                          Inl reason \<Rightarrow> Inl reason
                        | Inr r \<Rightarrow> Inr \<lparr>model = models this ! i, response = r\<rparr>) [0..<length (models this)]"
    using map_enumerate_upt [of "\<lambda>i m. case chat (k + i) m (user_message q) of
                          Inl reason \<Rightarrow> Inl reason
                        | Inr r \<Rightarrow> Inr \<lparr>model = m, response = r\<rparr>" 0 "models this"]
    by simp
  then show ?thesis
    unfolding LLMCouncil_stage1_def
    using fulfilled_map [where c = "\<lambda>i. chat (k + i) (models this ! i) (user_message q)"
             and g = "\<lambda>i r. \<lparr>model = models this ! i, response = r\<rparr>"
             and ixs = "[0..<length (models this)]"]
    by (simp add: Let_def)
qed

lemma all_failed_message:
  "sublist (js ''Stage 1 failed'') (js ''Stage 1 failed: All models failed to respond in Stage 1'')"
  "sublist (js ''All models failed'') (js ''Stage 1 failed: All models failed to respond in Stage 1'')"
proof -
  have "js ''Stage 1 failed: All models failed to respond in Stage 1''
      = [] @ js ''Stage 1 failed'' @ js '': All models failed to respond in Stage 1''"
    by (simp add: js_def)
  then show "sublist (js ''Stage 1 failed'') (js ''Stage 1 failed: All models failed to respond in Stage 1'')"
    unfolding sublist_def by blast
  have "js ''Stage 1 failed: All models failed to respond in Stage 1''
      = js ''Stage 1 failed: '' @ js ''All models failed'' @ js '' to respond in Stage 1''"
    by (simp add: js_def)
  then show "sublist (js ''All models failed'') (js ''Stage 1 failed: All models failed to respond in Stage 1'')"
    unfolding sublist_def by blast
qed

text \<open>
  Claim C4. Stage 1 raises its error exactly when none of the calls for the configured
  models succeeds. When it returns, the entries are the successful (model, response)
  pairs over the indices of the configured models in increasing order, the failed ones
  left out, so that the models of the entries form a subsequence of the configured
  models. When every call fails the run ends there: the error of the result contains
  \<^verbatim>\<open>Stage 1 failed\<close> and \<^verbatim>\<open>All models failed\<close>, and the three stage fields are null.
\<close>

theorem stage1_fails_iff_no_model_succeeds:
  "((\<exists>e. LLMCouncil_stage1 this chat k q = Inl e)
      \<longleftrightarrow> (\<forall>i<length (models this). isl (chat (k + i) (models this ! i) (user_message q))))
   \<and> (\<forall>entries. LLMCouncil_stage1 this chat k q = Inr entries \<longrightarrow>
         entries =
           map (\<lambda>i. \<lparr>model = models this ! i,
                      response = projr (chat (k + i) (models this ! i) (user_message q))\<rparr>)
               (filter (\<lambda>i. \<not> isl (chat (k + i) (models this ! i) (user_message q)))
                       [0..<length (models this)])
         \<and> subseq (map model entries) (models this))
   \<and> ((\<forall>i<length (models this). isl (chat i (models this ! i) (user_message q))) \<longrightarrow>
         (\<exists>err. error (LLMCouncil_run this chat q) = Some err
            \<and> sublist (js ''Stage 1 failed'') err \<and> sublist (js ''All models failed'') err)
         \<and> stage1 (LLMCouncil_run this chat q) = None
         \<and> stage2 (LLMCouncil_run this chat q) = None
         \<and> stage3 (LLMCouncil_run this chat q) = None)"
proof (intro conjI allI impI)
  let ?c = "\<lambda>i. chat (k + i) (models this ! i) (user_message q)"
  show "(\<exists>e. LLMCouncil_stage1 this chat k q = Inl e) \<longleftrightarrow> (\<forall>i<length (models this). isl (?c i))"
    by (auto simp: stage1_entries Let_def filter_empty_conv)
next
  fix entries
  assume "LLMCouncil_stage1 this chat k q = Inr entries"
  then show "entries =
           map (\<lambda>i. \<lparr>model = models this ! i,
                      response = projr (chat (k + i) (models this ! i) (user_message q))\<rparr>)
               (filter (\<lambda>i. \<not> isl (chat (k + i) (models this ! i) (user_message q)))
                       [0..<length (models this)])"
    by (auto simp: stage1_entries Let_def split: if_splits)
next
  fix entries
  assume a: "LLMCouncil_stage1 this chat k q = Inr entries"
  let ?P = "\<lambda>i. \<not> isl (chat (k + i) (models this ! i) (user_message q))"
  from a have "map model entries = map (\<lambda>i. models this ! i) (filter ?P [0..<length (models this)])"
    by (auto simp: stage1_entries Let_def comp_def split: if_splits)
  also have "subseq \<dots> (map (\<lambda>i. models this ! i) [0..<length (models this)])"
    by (intro subseq_map subseq_filter_left)
  finally show "subseq (map model entries) (models this)"
    by (simp add: map_nth)
next
  assume all: "\<forall>i<length (models this). isl (chat i (models this ! i) (user_message q))"
  then have s1: "LLMCouncil_stage1 this chat 0 q = Inl (ErrorObj (js ''All models failed to respond in Stage 1''))"
    by (auto simp: stage1_entries Let_def filter_empty_conv)
  have e: "error (LLMCouncil_run this chat q) = Some (js ''Stage 1 failed: All models failed to respond in Stage 1'')"
    by (simp add: LLMCouncil_run_def s1 js_def)
  show "\<exists>err. error (LLMCouncil_run this chat q) = Some err
            \<and> sublist (js ''Stage 1 failed'') err \<and> sublist (js ''All models failed'') err"
    using e all_failed_message by blast
  show "stage1 (LLMCouncil_run this chat q) = None" "stage2 (LLMCouncil_run this chat q) = None"
    "stage3 (LLMCouncil_run this chat q) = None"
    by (simp_all add: LLMCouncil_run_def s1)
qed

text \<open>
  Claim C1. A run ends in one of four ways. If Stage 1 fails, the three stage fields are
  null; if Stage 2 fails, \<open>stage1\<close> holds the result of Stage 1 and the other two are null;
  if Stage 3 fails, \<open>stage1\<close> and \<open>stage2\<close> hold their results and \<open>stage3\<close> is null; in
  each case \<open>error\<close> is \<^verbatim>\<open>Stage N failed: \<close> followed by the message of what the stage
  threw. If no stage fails, \<open>error\<close> is null and the three stage fields hold the results.
\<close>

theorem run_result_by_failing_stage:
  "(\<forall>e. LLMCouncil_stage1 this chat 0 q = Inl e \<longrightarrow>
       LLMCouncil_run this chat q =
         \<lparr>query = q, stage1 = None, stage2 = None, stage3 = None,
          error = Some (js ''Stage 1 failed: '' @ thrown_text e)\<rparr>)
   \<and> (\<forall>s1 e. LLMCouncil_stage1 this chat 0 q = Inr s1
         \<and> LLMCouncil_stage2 this chat (length (models this)) q s1 = Inl e \<longrightarrow>
       LLMCouncil_run this chat q =
         \<lparr>query = q, stage1 = Some s1, stage2 = None, stage3 = None,
          error = Some (js ''Stage 2 failed: '' @ thrown_text e)\<rparr>)
   \<and> (\<forall>s1 s2 e. LLMCouncil_stage1 this chat 0 q = Inr s1
         \<and> LLMCouncil_stage2 this chat (length (models this)) q s1 = Inr s2
         \<and> LLMCouncil_stage3 this chat (2 * length (models this)) q s1 (rankings s2) = Inl e \<longrightarrow>
       LLMCouncil_run this chat q =
         \<lparr>query = q, stage1 = Some s1, stage2 = Some s2, stage3 = None,
          error = Some (js ''Stage 3 failed: '' @ thrown_text e)\<rparr>)
   \<and> (\<forall>s1 s2 s3. LLMCouncil_stage1 this chat 0 q = Inr s1
         \<and> LLMCouncil_stage2 this chat (length (models this)) q s1 = Inr s2
         \<and> LLMCouncil_stage3 this chat (2 * length (models this)) q s1 (rankings s2) = Inr s3 \<longrightarrow>
       LLMCouncil_run this chat q =
         \<lparr>query = q, stage1 = Some s1, stage2 = Some s2, stage3 = Some s3, error = None\<rparr>)"
  by (simp add: LLMCouncil_run_def Let_def)


text \<open>The theorem at Scenario D, one model whose call is refused, and at a council of
  three whose second call times out.\<close>

theorem stage1_fails_iff_no_model_succeeds_witness:
  "isl (refusing 0 (js ''model-a'') (user_message (js ''hello'')))
   \<and> LLMCouncil_run council_a refusing (js ''hello'') =
        \<lparr>query = js ''hello'', stage1 = None, stage2 = None, stage3 = None,
         error = Some (js ''Stage 1 failed: All models failed to respond in Stage 1'')\<rparr>
   \<and> LLMCouncil_stage1 council_abc flaky 0 (js ''hello'') =
        Inr [\<lparr>model = js ''model-a'', response = js ''Answer from model-a''\<rparr>,
             \<lparr>model = js ''model-c'', response = js ''Answer from model-c''\<rparr>]
   \<and> subseq [js ''model-a'', js ''model-c''] (models council_abc)"
proof -
  have h: "\<forall>i<length (models council_a).
             isl (refusing i (models council_a ! i) (user_message (js ''hello'')))"
    by (simp add: refusing_def)
  have q: "query (LLMCouncil_run council_a refusing (js ''hello'')) = js ''hello''"
    by code_simp
  from stage1_fails_iff_no_model_succeeds [of council_a refusing 0 "js ''hello''"] h
  obtain err where e: "error (LLMCouncil_run council_a refusing (js ''hello'')) = Some err"
      "stage1 (LLMCouncil_run council_a refusing (js ''hello'')) = None"
      "stage2 (LLMCouncil_run council_a refusing (js ''hello'')) = None"
      "stage3 (LLMCouncil_run council_a refusing (js ''hello'')) = None"
    by blast
  have "error (LLMCouncil_run council_a refusing (js ''hello''))
      = Some (js ''Stage 1 failed: All models failed to respond in Stage 1'')"
    by code_simp
  with e q have 1: "LLMCouncil_run council_a refusing (js ''hello'') =
        \<lparr>query = js ''hello'', stage1 = None, stage2 = None, stage3 = None,
         error = Some (js ''Stage 1 failed: All models failed to respond in Stage 1'')\<rparr>"
    by (cases "LLMCouncil_run council_a refusing (js ''hello'')") simp
  have en: "LLMCouncil_stage1 council_abc flaky 0 (js ''hello'') =
        Inr [\<lparr>model = js ''model-a'', response = js ''Answer from model-a''\<rparr>,
             \<lparr>model = js ''model-c'', response = js ''Answer from model-c''\<rparr>]"
    by code_simp
  with stage1_fails_iff_no_model_succeeds [of council_abc flaky 0 "js ''hello''"]
  have "subseq (map model [\<lparr>model = js ''model-a'', response = js ''Answer from model-a''\<rparr>,
             \<lparr>model = js ''model-c'', response = js ''Answer from model-c''\<rparr>]) (models council_abc)"
    by blast
  then have "subseq [js ''model-a'', js ''model-c''] (models council_abc)"
    by simp
  then show ?thesis using 1 en by (simp add: refusing_def)
qed

lemma stage2_unfold:
  "LLMCouncil_stage2 this chat k q entries =
     (case calculateAggregateRankings (evaluations this chat k q entries) (snd (anonymize entries)) of
        Inl e \<Rightarrow> Inl e
      | Inr aggregateRankings \<Rightarrow>
          Inr \<lparr>rankings = evaluations this chat k q entries,
               label_to_model = snd (anonymize entries),
               aggregate_rankings = aggregateRankings\<rparr>)"
proof -
  let ?p = "user_message (buildRankingPrompt q (fst (anonymize entries)))"
  have "map (\<lambda>(i, m). case chat (k + i) m ?p of
                          Inl reason \<Rightarrow> Inl reason
                        | Inr ev \<Rightarrow> Inr \<lparr>ranker = m, evaluation = ev, parsed_ranking = parseRanking ev\<rparr>)
            (enumerate 0 (models this))
      = map (\<lambda>i. case chat (k + i) (models this ! i) ?p of
                          Inl reason \<Rightarrow> Inl reason
                        | Inr ev \<Rightarrow> Inr \<lparr>ranker = models this ! i, evaluation = ev,
                                       parsed_ranking = parseRanking ev\<rparr>)
            [0..<length (models this)]"
    using map_enumerate_upt [of "\<lambda>i m. case chat (k + i) m ?p of
                          Inl reason \<Rightarrow> Inl reason
                        | Inr ev \<Rightarrow> Inr \<lparr>ranker = m, evaluation = ev, parsed_ranking = parseRanking ev\<rparr>"
                 0 "models this"]
    by simp
  then have "fulfilled (map (\<lambda>(i, m). case chat (k + i) m ?p of
                          Inl reason \<Rightarrow> Inl reason
                        | Inr ev \<Rightarrow> Inr \<lparr>ranker = m, evaluation = ev, parsed_ranking = parseRanking ev\<rparr>)
            (enumerate 0 (models this))) = evaluations this chat k q entries"
    unfolding evaluations_def
    using fulfilled_map [where c = "\<lambda>i. chat (k + i) (models this ! i) ?p"
             and g = "\<lambda>i ev. \<lparr>ranker = models this ! i, evaluation = ev, parsed_ranking = parseRanking ev\<rparr>"
             and ixs = "[0..<length (models this)]"]
    by (simp add: Let_def)
  then show ?thesis
    unfolding LLMCouncil_stage2_def
    by (simp add: Let_def split_beta cong: sum.case_cong)
qed

lemma stage2_completes:
  assumes "\<not> isl (rank_all (snd (anonymize entries)) (evaluations this chat k q entries) [])"
  shows "LLMCouncil_stage2 this chat k q entries =
     Inr \<lparr>rankings = evaluations this chat k q entries,
          label_to_model = snd (anonymize entries),
          aggregate_rankings =
            projr (calculateAggregateRankings (evaluations this chat k q entries)
                     (snd (anonymize entries)))\<rparr>"
  using assms
  by (cases "rank_all (snd (anonymize entries)) (evaluations this chat k q entries) []")
     (simp_all add: stage2_unfold calculateAggregateRankings_def)

text \<open>The theorem at four runs, one for each way a run can end: Scenario D, a council
  whose model is named like a member of \<^verbatim>\<open>Object.prototype\<close>, Scenario E, and a run
  without failures.\<close>

theorem run_result_by_failing_stage_witness:
  "LLMCouncil_run council_a refusing (js ''hello'') =
     \<lparr>query = js ''hello'', stage1 = None, stage2 = None, stage3 = None,
      error = Some (js ''Stage 1 failed: All models failed to respond in Stage 1'')\<rparr>
   \<and> LLMCouncil_run council_constructor
        (scripted 1 (js ''FINAL RANKING:\<newline>1. Response A'') (Inr (js ''Synthesis''))) (js ''hello'') =
     \<lparr>query = js ''hello'',
      stage1 = Some [\<lparr>model = js ''constructor'', response = js ''Answer from constructor''\<rparr>],
      stage2 = None, stage3 = None,
      error = Some (js ''Stage 2 failed: modelRanks[model].push is not a function'')\<rparr>
   \<and> (let r = LLMCouncil_run council_ab
                (scripted 2 ranking_BA (Inl (ErrorObj (js ''OpenRouter API error (429): rate limited''))))
                (js ''hello'')
      in stage1 r = Some [\<lparr>model = js ''model-a'', response = js ''Answer from model-a''\<rparr>,
                          \<lparr>model = js ''model-b'', response = js ''Answer from model-b''\<rparr>]
         \<and> map_option (\<lambda>s. map parsed_ranking (rankings s)) (stage2 r)
             = Some [[js ''Response B'', js ''Response A''], [js ''Response B'', js ''Response A'']]
         \<and> stage3 r = None
         \<and> error r = Some (js ''Stage 3 failed: OpenRouter API error (429): rate limited''))
   \<and> (let r = LLMCouncil_run council_ab (scripted 2 ranking_BA (Inr (js ''Synthesis''))) (js ''hello'')
      in stage1 r = Some [\<lparr>model = js ''model-a'', response = js ''Answer from model-a''\<rparr>,
                          \<lparr>model = js ''model-b'', response = js ''Answer from model-b''\<rparr>]
         \<and> map_option (\<lambda>s. map parsed_ranking (rankings s)) (stage2 r)
             = Some [[js ''Response B'', js ''Response A''], [js ''Response B'', js ''Response A'']]
         \<and> stage3 r = Some \<lparr>chairman = js ''model-a'', synthesis = js ''Synthesis''\<rparr>
         \<and> error r = None)"
proof -
  let ?q = "js ''hello''"
  let ?ab = "[\<lparr>model = js ''model-a'', response = js ''Answer from model-a''\<rparr>,
              \<lparr>model = js ''model-b'', response = js ''Answer from model-b''\<rparr>]"
  let ?limited = "scripted 2 ranking_BA (Inl (ErrorObj (js ''OpenRouter API error (429): rate limited'')))"
  let ?fine = "scripted 2 ranking_BA (Inr (js ''Synthesis''))"
  let ?pc = "scripted 1 (js ''FINAL RANKING:\<newline>1. Response A'') (Inr (js ''Synthesis''))"
  let ?BA = "[[js ''Response B'', js ''Response A''], [js ''Response B'', js ''Response A'']]"
  have n1: "length (models council_a) = 1" "length (models council_constructor) = 1"
    and n2: "length (models council_ab) = 2"
    by (simp_all add: council_a_def council_constructor_def council_ab_def)
  have a1: "LLMCouncil_stage1 council_a refusing 0 ?q
      = Inl (ErrorObj (js ''All models failed to respond in Stage 1''))"
    by code_simp
  have c1: "LLMCouncil_stage1 council_constructor ?pc 0 ?q
      = Inr [\<lparr>model = js ''constructor'', response = js ''Answer from constructor''\<rparr>]"
    by code_simp
  have c2: "LLMCouncil_stage2 council_constructor ?pc 1 ?q
       [\<lparr>model = js ''constructor'', response = js ''Answer from constructor''\<rparr>]
      = Inl push_TypeError"
    by code_simp
  have l1: "LLMCouncil_stage1 council_ab ?limited 0 ?q = Inr ?ab" by code_simp
  have f1: "LLMCouncil_stage1 council_ab ?fine 0 ?q = Inr ?ab" by code_simp
  have le: "map parsed_ranking (evaluations council_ab ?limited 2 ?q ?ab) = ?BA"
    by code_simp
  have fe: "map parsed_ranking (evaluations council_ab ?fine 2 ?q ?ab) = ?BA"
    by code_simp
  have "\<not> isl (rank_all (snd (anonymize ?ab)) (evaluations council_ab ?limited 2 ?q ?ab) [])"
    by code_simp
  from stage2_completes [OF this] obtain l2 where
    l2: "LLMCouncil_stage2 council_ab ?limited 2 ?q ?ab = Inr l2"
    "rankings l2 = evaluations council_ab ?limited 2 ?q ?ab"
    by simp
  have "\<not> isl (rank_all (snd (anonymize ?ab)) (evaluations council_ab ?fine 2 ?q ?ab) [])"
    by code_simp
  from stage2_completes [OF this] obtain f2 where
    f2: "LLMCouncil_stage2 council_ab ?fine 2 ?q ?ab = Inr f2"
    "rankings f2 = evaluations council_ab ?fine 2 ?q ?ab"
    by simp
  have l3: "LLMCouncil_stage3 council_ab ?limited 4 ?q ?ab (rankings l2)
      = Inl (ErrorObj (js ''OpenRouter API error (429): rate limited''))"
    by (simp add: LLMCouncil_stage3_def scripted_def)
  have f3: "LLMCouncil_stage3 council_ab ?fine 4 ?q ?ab (rankings f2)
      = Inr \<lparr>chairman = js ''model-a'', synthesis = js ''Synthesis''\<rparr>"
    by (simp add: LLMCouncil_stage3_def scripted_def council_ab_def)
  note t = run_result_by_failing_stage
  have r1: "LLMCouncil_run council_a refusing ?q =
     \<lparr>query = ?q, stage1 = None, stage2 = None, stage3 = None,
      error = Some (js ''Stage 1 failed: All models failed to respond in Stage 1'')\<rparr>"
    using t [of council_a refusing ?q] a1 by (simp add: js_def)
  have r2: "LLMCouncil_run council_constructor ?pc ?q =
     \<lparr>query = ?q,
      stage1 = Some [\<lparr>model = js ''constructor'', response = js ''Answer from constructor''\<rparr>],
      stage2 = None, stage3 = None,
      error = Some (js ''Stage 2 failed: modelRanks[model].push is not a function'')\<rparr>"
    using t [of council_constructor ?pc ?q] c1 c2 n1 by (simp add: js_def push_TypeError_def)
  have r3: "LLMCouncil_run council_ab ?limited ?q =
     \<lparr>query = ?q, stage1 = Some ?ab, stage2 = Some l2, stage3 = None,
      error = Some (js ''Stage 3 failed: OpenRouter API error (429): rate limited'')\<rparr>"
    using t [of council_ab ?limited ?q] l1 l2(1) l3 n2 by (simp add: js_def)
  have r4: "LLMCouncil_run council_ab ?fine ?q =
     \<lparr>query = ?q, stage1 = Some ?ab, stage2 = Some f2,
      stage3 = Some \<lparr>chairman = js ''model-a'', synthesis = js ''Synthesis''\<rparr>, error = None\<rparr>"
    using t [of council_ab ?fine ?q] f1 f2(1) f3 n2 by simp
  show ?thesis
    unfolding r1 r2 r3 r4 Let_def using l2(2) f2(2) le fe by simp
qed

text \<open>
  Claim C5 says that Stage 2 completes whatever the evaluators do. The run below has
  one configured model, named \<^verbatim>\<open>constructor\<close>; every call succeeds and the evaluator
  ranks \<^verbatim>\<open>Response A\<close>. The read \<^verbatim>\<open>modelRanks["constructor"]\<close> finds the inherited
  \<^verbatim>\<open>Object.prototype.constructor\<close>, no array is created, the call of \<^verbatim>\<open>push\<close> throws, and the
  run reports the failure of Stage 2.
\<close>

theorem stage2_aborts_for_inherited_model_name:
  "LLMCouncil_run council_constructor
     (scripted 1 (js ''FINAL RANKING:\<newline>1. Response A'') (Inr (js ''Synthesis''))) (js ''hello'') =
     \<lparr>query = js ''hello'',
      stage1 = Some [\<lparr>model = js ''constructor'', response = js ''Answer from constructor''\<rparr>],
      stage2 = None, stage3 = None,
      error = Some (js ''Stage 2 failed: modelRanks[model].push is not a function'')\<rparr>"
  by code_simp

section \<open>Anonymization (claim C9)\<close>

lemma label_of_alphabet: "i < 26 \<Longrightarrow> label_of i = js ''Response '' @ [ALPHABET ! i]"
proof -
  assume i: "i < 26"
  have "map label_of [0..<26] = map (\<lambda>i. js ''Response '' @ [ALPHABET ! i]) [0..<26]"
    by code_simp
  with i show ?thesis
    by simp
qed

lemma label_of_inj:
  assumes "i < 26" "j < 26" "label_of i = label_of j"
  shows "i = j"
proof -
  from assms(3) have "(of_nat (65 + i) :: cu) = of_nat (65 + j)"
    by (simp add: label_of_def del: of_nat_add)
  then have "unat (of_nat (65 + i) :: cu) = unat (of_nat (65 + j) :: cu)"
    by (rule arg_cong)
  then have "(65 + i) mod 65536 = (65 + j) mod 65536"
    by (simp only: unat_of_nat) simp
  then show ?thesis
    using assms(1,2) by simp
qed

lemma update_fresh: "k \<notin> fst ` set al \<Longrightarrow> AList.update k v al = al @ [(k, v)]"
  by (induction al) auto

lemma anonymize_fold:
  assumes "k + length es \<le> 26" "fst ` set acc = label_of ` {..<k}"
  shows "foldl (\<lambda>labelToModel (i, entry). AList.update (label_of i) (model entry) labelToModel)
           acc (enumerate k es)
         = acc @ map (\<lambda>(i, e). (label_of i, model e)) (enumerate k es)"
  using assms
proof (induction es arbitrary: k acc)
  case Nil
  show ?case by simp
next
  case (Cons e es)
  have fresh: "label_of k \<notin> fst ` set acc"
  proof
    assume "label_of k \<in> fst ` set acc"
    then obtain j where "j < k" "label_of k = label_of j"
      using Cons.prems(2) by auto
    with Cons.prems(1) show False
      using label_of_inj [of k j] by simp
  qed
  have keys: "fst ` set (acc @ [(label_of k, model e)]) = label_of ` {..<Suc k}"
    using Cons.prems(2) by (auto simp: lessThan_Suc)
  have "Suc k + length es \<le> 26" using Cons.prems(1) by simp
  from Cons.IH [OF this keys] show ?case
    by (simp add: update_fresh [OF fresh])
qed

lemma snd_anonymize:
  assumes "length entries \<le> 26"
  shows "snd (anonymize entries)
       = map (\<lambda>i. (js ''Response '' @ [ALPHABET ! i], model (entries ! i))) [0..<length entries]"
proof -
  have "snd (anonymize entries) = map (\<lambda>(i, e). (label_of i, model e)) (enumerate 0 entries)"
    using anonymize_fold [of 0 entries "[]"] assms by (simp add: anonymize_def)
  also have "\<dots> = map (\<lambda>i. (label_of (0 + i), model (entries ! i))) [0..<length entries]"
    by (rule map_enumerate_upt)
  also have "\<dots> = map (\<lambda>i. (js ''Response '' @ [ALPHABET ! i], model (entries ! i))) [0..<length entries]"
    using assms by (auto simp: label_of_alphabet)
  finally show ?thesis .
qed

lemma fst_anonymize:
  assumes "length entries \<le> 26"
  shows "fst (anonymize entries)
       = map (\<lambda>i. (js ''Response '' @ [ALPHABET ! i], response (entries ! i))) [0..<length entries]"
proof -
  have "fst (anonymize entries) = map (\<lambda>i. (label_of (0 + i), response (entries ! i))) [0..<length entries]"
    unfolding anonymize_def fst_conv by (rule map_enumerate_upt)
  also have "\<dots> = map (\<lambda>i. (js ''Response '' @ [ALPHABET ! i], response (entries ! i))) [0..<length entries]"
    using assms by (auto simp: label_of_alphabet)
  finally show ?thesis .
qed

lemma distinct_labels:
  assumes "n \<le> 26"
  shows "distinct (map (\<lambda>i. js ''Response '' @ [ALPHABET ! i]) [0..<n])"
proof -
  have "inj_on (\<lambda>i. js ''Response '' @ [ALPHABET ! i]) (set [0..<n])"
  proof (rule inj_onI)
    fix i j
    assume "i \<in> set [0..<n]" "j \<in> set [0..<n]"
      and "js ''Response '' @ [ALPHABET ! i] = js ''Response '' @ [ALPHABET ! j]"
    then have "i < 26" "j < 26" "label_of i = label_of j"
      using assms by (auto simp: label_of_alphabet)
    then show "i = j" by (rule label_of_inj)
  qed
  then show ?thesis by (simp add: distinct_map)
qed

text \<open>
  Claim C9. For at most 26 Stage 1 entries, the entry at position \<open>i\<close> (from 0) gets the
  label \<^verbatim>\<open>Response\<close> followed by the \<open>(i+1)\<close>-th uppercase letter, both in the list of
  labelled responses for the prompt and in the label-to-model mapping; the labels are
  pairwise distinct and the mapping has one entry per Stage 1 entry. Labels and mapping
  are a function of the ordered entries alone: whatever the council, the provider, the
  query and the calls made before, the mapping that Stage 2 returns is this one.
\<close>

theorem anonymize_labels_by_position:
  assumes "length entries \<le> 26"
  shows "fst (anonymize entries)
           = map (\<lambda>i. (js ''Response '' @ [ALPHABET ! i], response (entries ! i))) [0..<length entries]
    \<and> snd (anonymize entries)
           = map (\<lambda>i. (js ''Response '' @ [ALPHABET ! i], model (entries ! i))) [0..<length entries]
    \<and> distinct (map fst (fst (anonymize entries)))
    \<and> distinct (map fst (snd (anonymize entries)))
    \<and> length (snd (anonymize entries)) = length entries
    \<and> (\<forall>this chat k q r. LLMCouncil_stage2 this chat k q entries = Inr r \<longrightarrow>
          label_to_model r = snd (anonymize entries))"
proof -
  have d: "distinct (map (\<lambda>i. js ''Response '' @ [ALPHABET ! i]) [0..<length entries])"
    using assms by (rule distinct_labels)
  have "\<And>this chat k q r. LLMCouncil_stage2 this chat k q entries = Inr r \<Longrightarrow>
          label_to_model r = snd (anonymize entries)"
    by (auto simp: stage2_unfold split: sum.splits)
  then show ?thesis
    using d by (simp add: fst_anonymize [OF assms] snd_anonymize [OF assms] comp_def)
qed

text \<open>The theorem at two entries.\<close>

theorem anonymize_labels_by_position_witness:
  "length [\<lparr>model = js ''model-a'', response = js ''first''\<rparr>,
           \<lparr>model = js ''model-c'', response = js ''second''\<rparr>] \<le> 26
   \<and> anonymize [\<lparr>model = js ''model-a'', response = js ''first''\<rparr>,
                \<lparr>model = js ''model-c'', response = js ''second''\<rparr>]
     = ([(js ''Response A'', js ''first''), (js ''Response B'', js ''second'')],
        [(js ''Response A'', js ''model-a''), (js ''Response B'', js ''model-c'')])"
proof -
  let ?es = "[\<lparr>model = js ''model-a'', response = js ''first''\<rparr>,
              \<lparr>model = js ''model-c'', response = js ''second''\<rparr>]"
  have h: "length ?es \<le> 26" by simp
  have a: "ALPHABET ! 0 = 0x41" "ALPHABET ! Suc 0 = 0x42"
    by (simp_all add: ALPHABET_def js_def)
  from anonymize_labels_by_position [OF h]
  have "fst (anonymize ?es) = [(js ''Response A'', js ''first''), (js ''Response B'', js ''second'')]"
    and "snd (anonymize ?es) = [(js ''Response A'', js ''model-a''), (js ''Response B'', js ''model-c'')]"
    by (simp_all add: a js_def upt_rec)
  then show ?thesis
    using h by (simp add: prod_eq_iff)
qed

section \<open>Mentions and the fall through the strategies (claims C6, C7)\<close>

lemma headered_no_marker: "indexOf text MARKER = - 1 \<Longrightarrow> headered text = None"
  by (simp add: headered_def)









text \<open>
  Claim C6, as amended. The search of the whole text for numbered labels is reached
  whenever the block for the marker has not returned: when the text has no marker, and
  also when it has the marker but neither the full labels nor the bare letters are found
  after it. The result is then the list of the numbered labels of the whole text if
  there is one, and only otherwise that of the mention-order strategy and its successor.
\<close>

theorem marker_without_ranking_falls_to_numbered_search:
  assumes "indexOf text MARKER = - 1
      \<or> (match_all numbered_re None (slice text (indexOf text MARKER)) = []
          \<and> match_all bare_re None (slice text (indexOf text MARKER)) = [])"
  shows "parseRanking text =
     (case match_all numbered_re None text of
        [] \<Rightarrow> mention_labels text
      | m # others \<Rightarrow> map (replace_empty ordinal_re) (m # others))"
proof -
  have "headered text = None"
    using assms by (auto simp: headered_def bare_labels_def str_match_def Let_def)
  then show ?thesis
    by (cases "match_all numbered_re None text")
       (simp_all add: parseRanking_def unheadered_def str_match_def)
qed

text \<open>Claim C6 as stated fails: the text below has the marker, nothing after the marker
  matches, and the result is the numbered label before the marker, not the mentions in
  their order.\<close>

theorem marker_without_ranking_counterexample:
  "indexOf (js ''Response A is good. 1. Response B FINAL RANKING: unclear'') MARKER = 34
   \<and> match_all numbered_re None (js ''FINAL RANKING: unclear'') = []
   \<and> match_all bare_re None (js ''FINAL RANKING: unclear'') = []
   \<and> parseRanking (js ''Response A is good. 1. Response B FINAL RANKING: unclear'')
       = [js ''Response B'']
   \<and> mention_labels (js ''Response A is good. 1. Response B FINAL RANKING: unclear'')
       = [js ''Response A'', js ''Response B'']"
  by code_simp

text \<open>The theorem at the same text.\<close>

theorem marker_without_ranking_falls_to_numbered_search_witness:
  "match_all numbered_re None (slice (js ''Response A is good. 1. Response B FINAL RANKING: unclear'')
       (indexOf (js ''Response A is good. 1. Response B FINAL RANKING: unclear'') MARKER)) = []
   \<and> match_all bare_re None (slice (js ''Response A is good. 1. Response B FINAL RANKING: unclear'')
       (indexOf (js ''Response A is good. 1. Response B FINAL RANKING: unclear'') MARKER)) = []
   \<and> match_all numbered_re None (js ''Response A is good. 1. Response B FINAL RANKING: unclear'')
       = [js ''1. Response B'']
   \<and> parseRanking (js ''Response A is good. 1. Response B FINAL RANKING: unclear'')
       = [replace_empty ordinal_re (js ''1. Response B'')]"
proof -
  let ?t = "js ''Response A is good. 1. Response B FINAL RANKING: unclear''"
  have h1: "match_all numbered_re None (slice ?t (indexOf ?t MARKER)) = []" by code_simp
  have h2: "match_all bare_re None (slice ?t (indexOf ?t MARKER)) = []" by code_simp
  have h3: "match_all numbered_re None ?t = [js ''1. Response B'']" by code_simp
  from marker_without_ranking_falls_to_numbered_search [of ?t] h1 h2
  have "parseRanking ?t =
     (case match_all numbered_re None ?t of
        [] \<Rightarrow> mention_labels ?t
      | m # others \<Rightarrow> map (replace_empty ordinal_re) (m # others))"
    by blast
  then show ?thesis using h1 h2 h3 by simp
qed

section \<open>The inequality chain (claim C8)\<close>

lemma gt_re_alt:
  "gt_re = Seq WordB (Seq (Cls is_upper) (Seq (Star (Cls is_space)) (Seq (Lit GT)
       (Seq (Star (Cls is_space)) (Seq (Cls is_upper) (Star gt_group))))))"
  by (simp add: gt_re_def gt_group_def)

lemma takeWhile_dropWhile_split:
  "dropWhile P s = c # r \<Longrightarrow> s = takeWhile P s @ c # r \<and> list_all P (takeWhile P s)"
  by (metis takeWhile_dropWhile_id list_all_iff set_takeWhileD)

lemma not_upper_space: "is_space c \<Longrightarrow> \<not> is_upper c"
  using not_space_upper by blast

lemma ms_Seq_WordB:
  "ms (Seq WordB b) (p, s) =
     (if (case p of None \<Rightarrow> False | Some c \<Rightarrow> is_word c)
         \<noteq> (case s of [] \<Rightarrow> False | x # _ \<Rightarrow> is_word x)
      then ms b (p, s) else [])"
  by simp

lemma rejects_space_GT: "rejects is_space (Seq (Lit GT) b)"
  by (rule rejects_Seq_Lit) (rule not_space_GT)

lemma rejects_space_upper: "rejects is_space (Cls is_upper)"
  by (rule rejects_Cls) (rule not_upper_space)

lemma rejects_space_upper_seq: "rejects is_space (Seq (Cls is_upper) b)"
  by (rule rejects_Seq_Cls) (rule not_upper_space)

lemma ms_gt_group:
  "ms gt_group (p, s) =
     (case dropWhile is_space s of [] \<Rightarrow> []
      | c # r \<Rightarrow>
          if c = GT then
            (case dropWhile is_space r of [] \<Rightarrow> []
             | l # rest \<Rightarrow> if is_upper l then [(Some l, rest)] else [])
          else [])"
  unfolding gt_group_def
  by (simp add: ms_Seq_Star_Cls [OF rejects_space_GT] ms_Seq_Lit
        ms_Seq_Star_Cls [OF rejects_space_upper] del: ms.simps(4)
        cong: list.case_cong if_cong)

lemma ms_gt_group_cases:
  "ms gt_group (p, s) = [] \<or>
   (\<exists>w1 w2 l rest. link_ok (w1, w2, l) \<and> s = link_text (w1, w2, l) @ rest
        \<and> ms gt_group (p, s) = [(Some l, rest)])"
proof (cases "ms gt_group (p, s) = []")
  case True
  then show ?thesis by simp
next
  case False
  then obtain r l rest where d1: "dropWhile is_space s = GT # r"
    and d2: "dropWhile is_space r = l # rest" and u: "is_upper l"
    by (auto simp: ms_gt_group split: list.splits if_splits)
  from takeWhile_dropWhile_split [OF d1] takeWhile_dropWhile_split [OF d2]
  have "s = takeWhile is_space s @ GT # takeWhile is_space r @ l # rest"
    "list_all is_space (takeWhile is_space s)" "list_all is_space (takeWhile is_space r)"
    by auto
  then have "link_ok (takeWhile is_space s, takeWhile is_space r, l)
      \<and> s = link_text (takeWhile is_space s, takeWhile is_space r, l) @ rest"
    using u by (simp add: link_ok_def link_text_def)
  moreover have "ms gt_group (p, s) = [(Some l, rest)]"
    using d1 d2 u by (simp add: ms_gt_group)
  ultimately show ?thesis by blast
qed

lemma ms_Star_not_Nil: "ms (Star a) q \<noteq> []"
  by (subst ms.simps(6)) simp

lemma link_text_length: "0 < length (link_text k)"
  by (cases k) (simp add: link_text_def)

lemma ms_Star_gt_group:
  "ms (Star gt_group) (p, s) = (q, rest) # others \<Longrightarrow>
   \<exists>links. list_all link_ok links \<and> s = concat (map link_text links) @ rest"
proof (induction s arbitrary: p q others rule: length_induct)
  case (1 s)
  from ms_gt_group_cases [of p s] show ?case
  proof
    assume "ms gt_group (p, s) = []"
    with "1.prems" have "rest = s"
      by (subst (asm) ms.simps(6)) simp
    then show ?thesis by (intro exI [of _ "[]"]) simp
  next
    assume "\<exists>w1 w2 l rest. link_ok (w1, w2, l) \<and> s = link_text (w1, w2, l) @ rest
        \<and> ms gt_group (p, s) = [(Some l, rest)]"
    then obtain w1 w2 l r where ok: "link_ok (w1, w2, l)" and s: "s = link_text (w1, w2, l) @ r"
      and g: "ms gt_group (p, s) = [(Some l, r)]" by blast
    have len: "length r < length s"
      using s link_text_length [of "(w1, w2, l)"] by simp
    from ms_Star_not_Nil [of gt_group "(Some l, r)"] obtain q' others' where
      st: "ms (Star gt_group) (Some l, r) = q' # others'"
      by (cases "ms (Star gt_group) (Some l, r)") auto
    have "ms (Star gt_group) (p, s) = ms (Star gt_group) (Some l, r) @ [(p, s)]"
      using g len by (subst ms.simps(6)) simp
    with "1.prems" st have "ms (Star gt_group) (Some l, r) = (q, rest) # others'"
      by simp
    with "1.IH" len obtain links where "list_all link_ok links"
      "r = concat (map link_text links) @ rest"
      by blast
    then show ?thesis
      using ok s by (intro exI [of _ "(w1, w2, l) # links"]) simp
  qed
qed

lemma ms_gt_re_form:
  assumes "ms gt_re (p, s) = (q, rest) # others"
  shows "\<exists>l links. is_upper l \<and> links \<noteq> [] \<and> list_all link_ok links
            \<and> s = gt_run l links @ rest"
proof -
  have r2: "rejects is_space (Seq (Cls is_upper) b)" for b
    by (rule rejects_space_upper_seq)
  let ?tail = "Seq (Cls is_upper) (Seq (Star (Cls is_space)) (Seq (Lit GT)
       (Seq (Star (Cls is_space)) (Seq (Cls is_upper) (Star gt_group)))))"
  have t: "ms ?tail (p, s) = (q, rest) # others"
    using assms unfolding gt_re_alt
    by (simp only: ms_Seq_WordB split: if_splits) simp
  then obtain l r where s: "s = l # r" and u: "is_upper l"
    by (cases s) (auto simp: ms_Seq_Cls simp del: ms.simps(4) split: if_splits)
  have "(q, rest) # others =
      ms (Seq (Star (Cls is_space)) (Seq (Lit GT)
       (Seq (Star (Cls is_space)) (Seq (Cls is_upper) (Star gt_group))))) (Some l, r)"
    using t unfolding s by (simp add: ms_Seq_Cls u del: ms.simps(4))
  also have "\<dots> = (case dropWhile is_space r of [] \<Rightarrow> []
      | c # r' \<Rightarrow>
          if c = GT then
            (case dropWhile is_space r' of [] \<Rightarrow> []
             | l' # r'' \<Rightarrow> if is_upper l' then ms (Star gt_group) (Some l', r'') else [])
          else [])"
    by (simp add: ms_Seq_Star_Cls [OF rejects_space_GT] ms_Seq_Lit
        ms_Seq_Star_Cls [OF r2] ms_Seq_Cls del: ms.simps
        cong: list.case_cong if_cong)
  finally obtain r' l' r'' where d1: "dropWhile is_space r = GT # r'"
    and d2: "dropWhile is_space r' = l' # r''" and u': "is_upper l'"
    and st: "ms (Star gt_group) (Some l', r'') = (q, rest) # others"
    by (auto split: list.splits if_splits)
  from ms_Star_gt_group [OF st] obtain links where
    links: "list_all link_ok links" "r'' = concat (map link_text links) @ rest"
    by blast
  from takeWhile_dropWhile_split [OF d1] takeWhile_dropWhile_split [OF d2]
  have "r = takeWhile is_space r @ GT # takeWhile is_space r' @ l' # r''"
    "list_all is_space (takeWhile is_space r)" "list_all is_space (takeWhile is_space r')"
    by auto
  then have "link_ok (takeWhile is_space r, takeWhile is_space r', l')"
    "r = link_text (takeWhile is_space r, takeWhile is_space r', l') @ r''"
    using u' by (simp_all add: link_ok_def link_text_def)
  then show ?thesis
    using u s links
    by (intro exI [of _ l] exI [of _ "(takeWhile is_space r, takeWhile is_space r', l') # links"])
       (simp add: gt_run_def)
qed


lemma split_on_no_sep: "c \<notin> set t \<Longrightarrow> split_on c t = [t]"
  by (induction t) auto

lemma split_on_append: "c \<notin> set t \<Longrightarrow> split_on c (t @ c # rest) = t # split_on c rest"
  by (induction t) auto

lemma GT_not_upper: "\<not> is_upper GT"
  by (simp add: is_upper_def GT_def)

lemma GT_notin_spaces: "list_all is_space w \<Longrightarrow> GT \<notin> set w"
  using not_space_GT by (auto simp: list_all_iff)

lemma trim_letter:
  assumes "list_all is_space w0" "list_all is_space w1" "\<not> is_space l"
  shows "trim (w0 @ [l] @ w1) = [l]"
proof -
  have "dropWhile is_space (w0 @ l # w1) = l # w1"
    using assms(1,3) by (rule dropWhile_all)
  moreover have "dropWhile is_space (rev w1 @ [l]) = [l]"
    using dropWhile_all [of is_space "rev w1" l "[]"] assms(2,3) by (simp add: list_all_iff)
  ultimately show ?thesis by (simp add: trim_def)
qed

lemma split_chain:
  assumes "list_all link_ok links" "is_upper l0" "list_all is_space w0"
  shows "map trim (split_on GT (w0 @ [l0] @ concat (map link_text links)))
       = [l0] # map (\<lambda>k. [link_letter k]) links"
  using assms
proof (induction links arbitrary: w0 l0)
  case Nil
  have "GT \<notin> set (w0 @ [l0])"
    using Nil.prems GT_notin_spaces GT_not_upper by auto
  then have "split_on GT (w0 @ [l0]) = [w0 @ [l0]]" by (rule split_on_no_sep)
  moreover have "trim (w0 @ [l0] @ []) = [l0]"
    using Nil.prems(3) _ not_space_upper [OF Nil.prems(2)] by (rule trim_letter) simp
  ultimately show ?case by simp
next
  case (Cons k links)
  obtain w1 w2 l where k: "k = (w1, w2, l)" by (cases k) auto
  have "link_ok (w1, w2, l)" and ok4: "list_all link_ok links"
    using Cons.prems(1) k by simp_all
  then have ok: "list_all is_space w1" "list_all is_space w2" "is_upper l" "list_all link_ok links"
    by (simp_all add: link_ok_def)
  have "GT \<notin> set (w0 @ [l0] @ w1)"
    using Cons.prems(2,3) ok(1) GT_notin_spaces GT_not_upper by auto
  then have "split_on GT ((w0 @ [l0] @ w1) @ GT # (w2 @ [l] @ concat (map link_text links)))
      = (w0 @ [l0] @ w1) # split_on GT (w2 @ [l] @ concat (map link_text links))"
    by (rule split_on_append)
  moreover have "trim (w0 @ [l0] @ w1) = [l0]"
    using Cons.prems(3) ok(1) not_space_upper [OF Cons.prems(2)] by (rule trim_letter)
  moreover have "map trim (split_on GT (w2 @ [l] @ concat (map link_text links)))
      = [l] # map (\<lambda>k. [link_letter k]) links"
    using ok(4) ok(3) ok(2) by (rule Cons.IH)
  moreover have "link_text k = w1 @ [GT] @ w2 @ [l]" "link_letter k = l"
    by (simp_all add: k link_text_def link_letter_def)
  ultimately show ?case
    by simp
qed

lemma test_single_upper: "is_upper l \<Longrightarrow> test single_upper_re [l]"
  by (simp add: test_def single_upper_re_def exec_at_def)

lemma is_word_upper: "is_upper c \<Longrightarrow> is_word c"
  by (simp add: is_upper_def is_word_def)

lemma ms_gt_group_link:
  assumes "link_ok k"
  shows "ms gt_group (p, link_text k @ r) = [(Some (link_letter k), r)]"
proof -
  obtain w1 w2 l where k: "k = (w1, w2, l)" by (cases k) auto
  have ok: "list_all is_space w1" "list_all is_space w2" "is_upper l"
    using assms by (simp_all add: k link_ok_def)
  have d1: "dropWhile is_space (w1 @ GT # (w2 @ l # r)) = GT # (w2 @ l # r)"
    using ok(1) not_space_GT by (rule dropWhile_all)
  have d2: "dropWhile is_space (w2 @ l # r) = l # r"
    using ok(2) not_space_upper [OF ok(3)] by (rule dropWhile_all)
  show ?thesis
    using d1 d2 ok(3) by (simp add: ms_gt_group k link_text_def link_letter_def)
qed

lemma ms_gt_group_no_link:
  assumes "\<not> (\<exists>k r. link_ok k \<and> s = link_text k @ r)"
  shows "ms gt_group (p, s) = []"
  using ms_gt_group_cases [of p s] assms by blast

lemma ms_Star_gt_group_links:
  assumes "list_all link_ok links" "\<not> (\<exists>k r. link_ok k \<and> rest = link_text k @ r)"
  shows "\<exists>q others. ms (Star gt_group) (p, concat (map link_text links) @ rest) = (q, rest) # others"
  using assms(1)
proof (induction links arbitrary: p)
  case Nil
  have "ms (Star gt_group) (p, rest) = [(p, rest)]"
    using ms_gt_group_no_link [OF assms(2), of p] by (subst ms.simps(6)) simp
  then show ?case by simp
next
  case (Cons k links)
  let ?r = "concat (map link_text links) @ rest"
  have ok: "link_ok k" "list_all link_ok links" using Cons.prems by simp_all
  have g: "ms gt_group (p, link_text k @ ?r) = [(Some (link_letter k), ?r)]"
    using ok(1) by (rule ms_gt_group_link)
  have "ms (Star gt_group) (p, link_text k @ ?r)
      = ms (Star gt_group) (Some (link_letter k), ?r) @ [(p, link_text k @ ?r)]"
    using g link_text_length [of k] by (subst ms.simps(6)) simp
  moreover from Cons.IH [OF ok(2), of "Some (link_letter k)"] obtain q others where
    "ms (Star gt_group) (Some (link_letter k), ?r) = (q, rest) # others" by blast
  ultimately show ?case by simp
qed

lemma ms_gt_re_tail:
  "ms (Seq (Cls is_upper) (Seq (Star (Cls is_space)) (Seq (Lit GT)
       (Seq (Star (Cls is_space)) (Seq (Cls is_upper) (Star gt_group)))))) (p, s) =
   (case s of [] \<Rightarrow> []
    | l # r \<Rightarrow>
      if is_upper l then
        (case dropWhile is_space r of [] \<Rightarrow> []
         | c # r' \<Rightarrow>
            if c = GT then
              (case dropWhile is_space r' of [] \<Rightarrow> []
               | l' # r'' \<Rightarrow> if is_upper l' then ms (Star gt_group) (Some l', r'') else [])
            else [])
      else [])"
  by (simp add: ms_Seq_Star_Cls [OF rejects_space_GT] ms_Seq_Lit
        ms_Seq_Star_Cls [OF rejects_space_upper_seq] ms_Seq_Cls del: ms.simps
        cong: list.case_cong if_cong)

lemma ms_gt_re_link:
  assumes "is_upper l" "link_ok k"
  shows "ms gt_re (after a None, l # link_text k @ r) =
     (if a = [] \<or> \<not> is_word (last a) then ms (Star gt_group) (Some (link_letter k), r) else [])"
proof -
  obtain w1 w2 l' where k: "k = (w1, w2, l')" by (cases k) auto
  have ok: "list_all is_space w1" "list_all is_space w2" "is_upper l'"
    using assms(2) by (simp_all add: k link_ok_def)
  have d1: "dropWhile is_space (w1 @ GT # (w2 @ l' # r)) = GT # (w2 @ l' # r)"
    using ok(1) not_space_GT by (rule dropWhile_all)
  have d2: "dropWhile is_space (w2 @ l' # r) = l' # r"
    using ok(2) not_space_upper [OF ok(3)] by (rule dropWhile_all)
  show ?thesis
    unfolding gt_re_alt ms_Seq_WordB ms_gt_re_tail
    using d1 d2 ok(3) assms(1) is_word_upper [OF assms(1)]
    by (simp add: k link_text_def link_letter_def after_def)
qed

lemma ms_gt_re_chain:
  assumes "is_upper l" "links \<noteq> []" "list_all link_ok links"
    and "a = [] \<or> \<not> is_word (last a)"
    and "\<not> (\<exists>k r. link_ok k \<and> rest = link_text k @ r)"
  shows "\<exists>q others. ms gt_re (after a None, gt_run l links @ rest) = (q, rest) # others"
proof -
  from assms(2) obtain k ks where links: "links = k # ks" by (cases links) auto
  have ok: "link_ok k" "list_all link_ok ks" using assms(3) links by simp_all
  have "ms gt_re (after a None, l # link_text k @ (concat (map link_text ks) @ rest))
      = ms (Star gt_group) (Some (link_letter k), concat (map link_text ks) @ rest)"
    using ms_gt_re_link [OF assms(1) ok(1)] assms(4) by simp
  moreover from ms_Star_gt_group_links [OF ok(2) assms(5)] obtain q others where
    "ms (Star gt_group) (Some (link_letter k), concat (map link_text ks) @ rest) = (q, rest) # others"
    by blast
  ultimately show ?thesis by (simp add: links gt_run_def)
qed

lemma chain_at_iff: "chain_at a s \<longleftrightarrow> ms gt_re (after a None, s) \<noteq> []"
proof
  assume "chain_at a s"
  then obtain l links rest where b: "a = [] \<or> \<not> is_word (last a)"
    and f: "is_upper l" "links \<noteq> []" "list_all link_ok links" "s = gt_run l links @ rest"
    by (auto simp: chain_at_def)
  from f(2) obtain k ks where links: "links = k # ks" by (cases links) auto
  have ok: "link_ok k" using f(3) links by simp
  have "ms gt_re (after a None, l # link_text k @ (concat (map link_text ks) @ rest))
      = ms (Star gt_group) (Some (link_letter k), concat (map link_text ks) @ rest)"
    using ms_gt_re_link [OF f(1) ok] b by simp
  then show "ms gt_re (after a None, s) \<noteq> []"
    using ms_Star_not_Nil by (simp add: f(4) links gt_run_def)
next
  assume n: "ms gt_re (after a None, s) \<noteq> []"
  then obtain q rest others where m: "ms gt_re (after a None, s) = (q, rest) # others"
    by (cases "ms gt_re (after a None, s)") auto
  from ms_gt_re_form [OF m] obtain l links where
    "is_upper l" "links \<noteq> []" "list_all link_ok links" "s = gt_run l links @ rest"
    by blast
  moreover have "a = [] \<or> \<not> is_word (last a)"
    using n unfolding gt_re_alt ms_Seq_WordB ms_gt_re_tail
    by (auto simp: after_def is_word_upper split: if_splits list.splits)
  ultimately show "chain_at a s" by (auto simp: chain_at_def)
qed

lemma match_all_before_chain:
  assumes "\<forall>a b. pre = a @ b \<and> b \<noteq> [] \<longrightarrow> \<not> chain_at (a0 @ a) (b @ s)"
  shows "match_all gt_re (after a0 None) (pre @ s) = match_all gt_re (after (a0 @ pre) None) s"
  using assms
proof (induction pre arbitrary: a0)
  case Nil
  show ?case by simp
next
  case (Cons c pre)
  have "\<not> chain_at (a0 @ []) ((c # pre) @ s)"
    using Cons.prems by blast
  then have "ms gt_re (after a0 None, c # pre @ s) = []"
    by (simp add: chain_at_iff)
  then have "match_all gt_re (after a0 None) ((c # pre) @ s) = match_all gt_re (Some c) (pre @ s)"
    by (simp add: match_all_skip)
  also have "Some c = after (a0 @ [c]) None" by (simp add: after_def)
  also have "match_all gt_re (after (a0 @ [c]) None) (pre @ s)
      = match_all gt_re (after ((a0 @ [c]) @ pre) None) s"
  proof (rule Cons.IH, intro allI impI)
    fix a b assume "pre = a @ b \<and> b \<noteq> []"
    then have "c # pre = (c # a) @ b \<and> b \<noteq> []" by simp
    with Cons.prems have "\<not> chain_at (a0 @ c # a) (b @ s)" by blast
    then show "\<not> chain_at ((a0 @ [c]) @ a) (b @ s)" by simp
  qed
  finally show ?case by simp
qed

lemma gt_run_not_Nil: "gt_run l links \<noteq> []"
  by (simp add: gt_run_def)

lemma gt_labels_first_match:
  assumes "match_all gt_re None text = gt_run l links # others"
    and "is_upper l" "list_all link_ok links"
  shows "gt_labels text = map (\<lambda>c. js ''Response '' @ [c]) (l # map link_letter links)"
proof -
  have "map trim (split_on GT ([] @ [l] @ concat (map link_text links)))
      = [l] # map (\<lambda>k. [link_letter k]) links"
    using assms(3) assms(2) by (rule split_chain) simp
  then have toks: "map trim (split_on GT (gt_run l links)) = map (\<lambda>c. [c]) (l # map link_letter links)"
    unfolding gt_run_def by (simp add: comp_def)
  have all: "list_all (test single_upper_re) (map (\<lambda>c. [c]) (l # map link_letter links))"
    using assms(2,3) by (auto simp: list_all_iff test_single_upper link_ok_def link_letter_def)
  show ?thesis
    using assms(1) toks all by (simp add: gt_labels_def str_match_def Let_def comp_def)
qed

lemma all_splits:
  "(\<forall>a b. xs = a @ b \<and> b \<noteq> [] \<longrightarrow> P a b)
     \<longleftrightarrow> list_all (\<lambda>i. P (take i xs) (drop i xs)) [0..<length xs]"
proof
  assume h: "\<forall>a b. xs = a @ b \<and> b \<noteq> [] \<longrightarrow> P a b"
  show "list_all (\<lambda>i. P (take i xs) (drop i xs)) [0..<length xs]"
    unfolding list_all_iff
  proof
    fix i assume "i \<in> set [0..<length xs]"
    then have "xs = take i xs @ drop i xs \<and> drop i xs \<noteq> []" by simp
    with h show "P (take i xs) (drop i xs)" by blast
  qed
next
  assume h: "list_all (\<lambda>i. P (take i xs) (drop i xs)) [0..<length xs]"
  show "\<forall>a b. xs = a @ b \<and> b \<noteq> [] \<longrightarrow> P a b"
  proof (intro allI impI)
    fix a b assume ab: "xs = a @ b \<and> b \<noteq> []"
    then have "length a \<in> set [0..<length xs]" by (cases b) auto
    with h have "P (take (length a) xs) (drop (length a) xs)"
      unfolding list_all_iff by blast
    with ab show "P a b" by simp
  qed
qed

lemma no_link_iff:
  "(\<not> (\<exists>k r. link_ok k \<and> s = link_text k @ r)) \<longleftrightarrow> ms gt_group (None, s) = []"
  using ms_gt_group_link [of _ None] ms_gt_group_no_link [of s None] by fastforce

text \<open>
  Claim C8, as amended. Take a text without the marker, in which neither the
  numbered-list expression nor the mention expression finds anything, and which holds a
  chain: an uppercase letter \<open>l\<close> followed by one link or more, each link being optional
  whitespace, \<^verbatim>\<open>>\<close>, optional whitespace and an uppercase letter. If the chain begins at
  a word boundary (at the start of the text or after a code unit that is not a letter, a
  digit or an underscore), no chain begins at a word boundary before it, and the chain
  is taken to its full length (what follows it does not begin with a further link), then
  the result is \<^verbatim>\<open>Response\<close> with each letter of the chain, in order. In particular the
  text of Scenario B is parsed to \<^verbatim>\<open>Response B\<close>, \<^verbatim>\<open>Response A\<close>, \<^verbatim>\<open>Response C\<close>.
\<close>

theorem gt_chain_at_word_boundary:
  assumes "indexOf text MARKER = - 1"
    and "match_all numbered_re None text = []"
    and "match_all mention_re None text = []"
    and "text = pre @ gt_run l links @ rest"
    and "is_upper l" and "links \<noteq> []" and "list_all link_ok links"
    and "pre = [] \<or> \<not> is_word (last pre)"
    and "\<forall>a b. pre = a @ b \<and> b \<noteq> [] \<longrightarrow> \<not> chain_at a (b @ gt_run l links @ rest)"
    and "\<not> (\<exists>k r. link_ok k \<and> rest = link_text k @ r)"
  shows "parseRanking text = map (\<lambda>c. js ''Response '' @ [c]) (l # map link_letter links)
    \<and> parseRanking (js ''Overall I think the ranking is B > A > C'')
        = [js ''Response B'', js ''Response A'', js ''Response C'']"
proof (intro conjI)
  have "match_all gt_re (after [] None) (pre @ gt_run l links @ rest)
      = match_all gt_re (after ([] @ pre) None) (gt_run l links @ rest)"
    using assms(9) by (intro match_all_before_chain) simp
  moreover from ms_gt_re_chain [OF assms(5-8) assms(10)] obtain q others where
    "ms gt_re (after pre None, gt_run l links @ rest) = (q, rest) # others" by blast
  then have "match_all gt_re (after pre None) (gt_run l links @ rest)
      = gt_run l links # match_all gt_re (Some (last (gt_run l links))) rest"
    using gt_run_not_Nil by (rule match_all_hit)
  ultimately have "match_all gt_re None text
      = gt_run l links # match_all gt_re (Some (last (gt_run l links))) rest"
    by (simp add: assms(4) after_def)
  then have "gt_labels text = map (\<lambda>c. js ''Response '' @ [c]) (l # map link_letter links)"
    using assms(5,7) by (rule gt_labels_first_match)
  then show "parseRanking text = map (\<lambda>c. js ''Response '' @ [c]) (l # map link_letter links)"
    using assms(1-3)
    by (simp add: parseRanking_def headered_no_marker unheadered_def mention_labels_def
          str_match_def)
next
  show "parseRanking (js ''Overall I think the ranking is B > A > C'')
        = [js ''Response B'', js ''Response A'', js ''Response C'']"
    by code_simp
qed

text \<open>The theorem at a text whose chain comes after prose and is followed by more
  letters: the chain is \<^verbatim>\<open>B > A > C\<close>, and \<^verbatim>\<open>at\<close> follows it.\<close>

theorem gt_chain_at_word_boundary_witness:
  "indexOf (js ''Overall I think the ranking is B > A > Cat'') MARKER = - 1
   \<and> match_all numbered_re None (js ''Overall I think the ranking is B > A > Cat'') = []
   \<and> match_all mention_re None (js ''Overall I think the ranking is B > A > Cat'') = []
   \<and> js ''Overall I think the ranking is B > A > Cat''
       = js ''Overall I think the ranking is ''
         @ gt_run 0x42 [(js '' '', js '' '', 0x41), (js '' '', js '' '', 0x43)] @ js ''at''
   \<and> parseRanking (js ''Overall I think the ranking is B > A > Cat'')
      = [js ''Response B'', js ''Response A'', js ''Response C'']"
proof -
  let ?t = "js ''Overall I think the ranking is B > A > Cat''"
  let ?pre = "js ''Overall I think the ranking is ''"
  let ?links = "[(js '' '', js '' '', 0x41), (js '' '', js '' '', 0x43)] :: link list"
  let ?run = "gt_run 0x42 ?links"
  have h1: "indexOf ?t MARKER = - 1" by code_simp
  have h2: "match_all numbered_re None ?t = []" by code_simp
  have h3: "match_all mention_re None ?t = []" by code_simp
  have h4: "?t = ?pre @ ?run @ js ''at''" by code_simp
  have h5: "is_upper 0x42" by code_simp
  have h6: "?links \<noteq> []" by simp
  have h7: "list_all link_ok ?links" by code_simp
  have h8: "?pre = [] \<or> \<not> is_word (last ?pre)" by code_simp
  have "list_all (\<lambda>i. ms gt_re (after (take i ?pre) None, drop i ?pre @ ?run @ js ''at'') = [])
          [0..<length ?pre]"
    by code_simp
  then have h9: "\<forall>a b. ?pre = a @ b \<and> b \<noteq> [] \<longrightarrow> \<not> chain_at a (b @ ?run @ js ''at'')"
    unfolding all_splits chain_at_iff by simp
  have "ms gt_group (None, js ''at'') = []" by code_simp
  then have h10: "\<not> (\<exists>k r. link_ok k \<and> js ''at'' = link_text k @ r)"
    by (simp only: no_link_iff)
  have l: "map (\<lambda>c. js ''Response '' @ [c]) (0x42 # map link_letter ?links)
      = [js ''Response B'', js ''Response A'', js ''Response C'']"
    by code_simp
  from gt_chain_at_word_boundary [OF h1 h2 h3 h4 h5 h6 h7 h8 h9 h10] l
  have "parseRanking ?t = [js ''Response B'', js ''Response A'', js ''Response C'']"
    by simp
  then show ?thesis using h1 h2 h3 h4 by simp
qed

text \<open>Claim C8 as stated fails: the text \<^verbatim>\<open>_A > B\<close> has no marker, no numbered item and
  no mention, and after its first code unit it is a chain of two uppercase letters
  separated by \<^verbatim>\<open>>\<close>; the chain begins after an underscore, which is no word boundary,
  and the result is empty. In \<^verbatim>\<open>xA > B > C\<close> the chain is read from its second letter
  on.\<close>

theorem gt_chain_after_word_character_counterexample:
  "indexOf (js ''_A > B'') MARKER = - 1
   \<and> match_all numbered_re None (js ''_A > B'') = []
   \<and> match_all mention_re None (js ''_A > B'') = []
   \<and> js ''_A > B'' = js ''_'' @ gt_run 0x41 [(js '' '', js '' '', 0x42)]
   \<and> is_upper 0x41 \<and> list_all link_ok [(js '' '', js '' '', 0x42)]
   \<and> parseRanking (js ''_A > B'') = []
   \<and> parseRanking (js ''xA > B > C'') = [js ''Response B'', js ''Response C'']"
  by code_simp

section \<open>The aggregation (claim C3)\<close>

text \<open>An integer below \<open>2\<^sup>5\<^sup>3\<close> is a double, so the sum of the ranks is exact as long as
  it stays below that bound; the three operations after it round.\<close>

lemma pow2_pos: "0 < pow2 e"
  by (simp add: pow2_def)

lemma round_even_of_int: "round_even (of_int k) = k"
  by (simp add: round_even_def)

lemma ilog2_of_int_le:
  assumes "0 < n" "n < 2 ^ 53"
  shows "ilog2 (of_int n) \<le> 52"
proof -
  have "bitlen n \<le> 53"
    using assms(2) bitlen_le_iff_power [of n 53] by simp
  moreover have "snd (quotient_of (of_int n)) = 1" "fst (quotient_of (of_int n)) = n"
    by simp_all
  ultimately show ?thesis
    by (simp add: ilog2_def Let_def bitlen_def floorlog_def)
qed

lemma fl_of_int:
  assumes "\<bar>n\<bar> < 2 ^ 53"
  shows "fl (of_int n) = of_int n"
proof (cases "n = 0")
  case True
  then show ?thesis by (simp add: fl_def)
next
  case False
  define a where "a = \<bar>n\<bar>"
  have a: "0 < a" "a < 2 ^ 53" using False assms by (simp_all add: a_def)
  define k where "k = 52 - max (ilog2 (of_int a)) (- 1022)"
  have k0: "0 \<le> k"
    using ilog2_of_int_le [OF a] by (simp add: k_def)
  have u: "pow2 (max (ilog2 (of_int a)) (- 1022) - 52) = 1 / 2 ^ nat k"
    using k0 by (auto simp: pow2_def k_def)
  have ab: "\<bar>of_int n :: rat\<bar> = of_int a" by (simp add: a_def)
  define m where "m = a * 2 ^ nat k"
  have q: "of_int a / (1 / 2 ^ nat k) = (of_int m :: rat)"
    by (simp add: m_def)
  have "fl (of_int n) = sgn (of_int n) * of_int (round_even (of_int a / (1 / 2 ^ nat k))) * (1 / 2 ^ nat k)"
    using False by (simp add: fl_def Let_def ab u)
  also have "\<dots> = sgn (of_int n) * of_int m * (1 / 2 ^ nat k)"
    by (simp only: q round_even_of_int)
  also have "\<dots> = sgn (of_int n :: rat) * of_int a"
    by (simp add: m_def)
  also have "\<dots> = of_int n"
    unfolding ab [symmetric] by (rule sgn_mult_abs)
  finally show ?thesis .
qed

lemma foldl_js_add_exact:
  "a + sum_list xs < 2 ^ 53 \<Longrightarrow>
   foldl js_add (of_nat a) (map of_nat xs) = of_nat (a + sum_list xs)"
proof (induction xs arbitrary: a)
  case Nil
  show ?case by simp
next
  case (Cons x xs)
  have "int (a + x) < 2 ^ 53"
    using Cons.prems by (simp flip: of_nat_less_iff [where 'a = int])
  then have "fl (of_int (int (a + x))) = of_int (int (a + x))"
    by (intro fl_of_int) simp
  then have "js_add (of_nat a) (of_nat x) = of_nat (a + x)"
    by (simp add: js_add_def)
  then show ?case
    using Cons.IH [of "a + x"] Cons.prems by (simp add: add.assoc)
qed

lemma average_of_exact_sum:
  assumes "sum_list ranks < 2 ^ 53"
  shows "average_of ranks =
     fl (of_int \<lfloor>fl (fl (of_nat (sum_list ranks) / of_nat (length ranks)) * 100) + 1 / 2\<rfloor> / 100)"
  using foldl_js_add_exact [of 0 ranks] assms
  by (simp add: average_of_def js_div_def js_mul_def Math_round_def)

lemma average_of_forty_ranks:
  "average_of (replicate 39 1 @ [2]) = fl (102 / 100)
   \<and> (of_nat (sum_list (replicate 39 1 @ [2])) :: rat) / of_nat (length (replicate 39 1 @ [2 :: nat]))
      = 1025 / 1000"
proof -
  let ?r = "replicate 39 1 @ [2 :: nat]"
  have s: "sum_list ?r = 41" "length ?r = 40"
    by (simp_all add: sum_list_replicate)
  have "sum_list ?r < 2 ^ 53"
    unfolding s by simp
  then have e: "average_of ?r =
     fl (of_int \<lfloor>fl (fl (of_nat (sum_list ?r) / of_nat (length ?r)) * 100) + 1 / 2\<rfloor> / 100)"
    by (rule average_of_exact_sum)
  show ?thesis
    unfolding e s by code_simp
qed

text \<open>
  Claim C3 fails on the code. \<^verbatim>\<open>calculateAggregateRankings\<close> collects the ranks in a
  plain object. For a model whose name is a member of \<^verbatim>\<open>Object.prototype\<close>, here
  \<^verbatim>\<open>constructor\<close>, the function returns nothing: it throws a \<^verbatim>\<open>TypeError\<close>. For models
  whose names are array indices, here \<^verbatim>\<open>2\<close> met first and \<^verbatim>\<open>1\<close> met second, both with
  the ranks 1 and 2 and so the average 1.5, the output lists \<^verbatim>\<open>1\<close> before \<^verbatim>\<open>2\<close>: the tie
  is not kept in the order in which the models were first met. For a label that is a
  member of \<^verbatim>\<open>Object.prototype\<close> and that the mapping does not hold, a rank is recorded
  for the text of the inherited function. The average is rounded in double arithmetic:
  for 39 ranks of 1 and one rank of 2 the mean is 1.025 and the average is 1.02, where
  rounding the mean half up to two decimal places gives 1.03.
  Scenario C itself is computed as the claim says: \<^verbatim>\<open>m3\<close> with 1.33, \<^verbatim>\<open>m1\<close> with 2 and
  \<^verbatim>\<open>m2\<close> with 2.67, each from three ranks.
\<close>

theorem calculateAggregateRankings_on_plain_object:
  "calculateAggregateRankings
     [\<lparr>ranker = js ''e1'', evaluation = js ''1. Response A'', parsed_ranking = [js ''Response A'']\<rparr>]
     [(js ''Response A'', js ''constructor'')]
     = Inl (ErrorObj (js ''modelRanks[model].push is not a function''))
   \<and> rank_all [(js ''Response A'', js ''2''), (js ''Response B'', js ''1'')]
       [\<lparr>ranker = js ''e1'', evaluation = [], parsed_ranking = [js ''Response A'', js ''Response B'']\<rparr>,
        \<lparr>ranker = js ''e2'', evaluation = [], parsed_ranking = [js ''Response B'', js ''Response A'']\<rparr>]
       []
     = Inr [(js ''2'', [1, 2]), (js ''1'', [2, 1])]
   \<and> calculateAggregateRankings
       [\<lparr>ranker = js ''e1'', evaluation = [], parsed_ranking = [js ''Response A'', js ''Response B'']\<rparr>,
        \<lparr>ranker = js ''e2'', evaluation = [], parsed_ranking = [js ''Response B'', js ''Response A'']\<rparr>]
       [(js ''Response A'', js ''2''), (js ''Response B'', js ''1'')]
     = Inr [\<lparr>agg_model = js ''1'', average_rank = 3 / 2, rankings_count = 2\<rparr>,
            \<lparr>agg_model = js ''2'', average_rank = 3 / 2, rankings_count = 2\<rparr>]
   \<and> calculateAggregateRankings
       [\<lparr>ranker = js ''e1'', evaluation = [], parsed_ranking = [js ''constructor'']\<rparr>] []
     = Inr [\<lparr>agg_model = js ''function Object() { [native code] }'', average_rank = 1,
             rankings_count = 1\<rparr>]
   \<and> average_of (replicate 39 1 @ [2]) = fl (102 / 100)
   \<and> (of_nat (sum_list (replicate 39 1 @ [2])) :: rat) / of_nat (length (replicate 39 1 @ [2 :: nat]))
      = 1025 / 1000
   \<and> rat_of_int \<lfloor>1025 / 1000 * 100 + 1 / 2 :: rat\<rfloor> / 100 = 103 / 100
   \<and> fl (102 / 100) < fl (103 / 100)
   \<and> calculateAggregateRankings
       [\<lparr>ranker = js ''e1'', evaluation = [],
          parsed_ranking = [js ''Response C'', js ''Response A'', js ''Response B'']\<rparr>,
        \<lparr>ranker = js ''e2'', evaluation = [],
          parsed_ranking = [js ''Response A'', js ''Response C'', js ''Response B'']\<rparr>,
        \<lparr>ranker = js ''e3'', evaluation = [],
          parsed_ranking = [js ''Response C'', js ''Response B'', js ''Response A'']\<rparr>]
       [(js ''Response A'', js ''m1''), (js ''Response B'', js ''m2''), (js ''Response C'', js ''m3'')]
     = Inr [\<lparr>agg_model = js ''m3'', average_rank = fl (133 / 100), rankings_count = 3\<rparr>,
            \<lparr>agg_model = js ''m1'', average_rank = 2, rankings_count = 3\<rparr>,
            \<lparr>agg_model = js ''m2'', average_rank = fl (267 / 100), rankings_count = 3\<rparr>]"
proof (intro conjI)
  show "average_of (replicate 39 1 @ [2]) = fl (102 / 100)"
    using average_of_forty_ranks by (rule conjunct1)
  show "(of_nat (sum_list (replicate 39 1 @ [2])) :: rat) / of_nat (length (replicate 39 1 @ [2 :: nat]))
      = 1025 / 1000"
    using average_of_forty_ranks by (rule conjunct2)
qed code_simp+

end
